theory Spec2Isabelle
  imports Main "HOL-Library.AList"
begin

section \<open>The autopilot loop of fileview: data model\<close>

text \<open>
  A shallow embedding of \<^verbatim>\<open>scripts/autopilot_loop.py\<close>. Python dictionaries whose keys
  are fixed by the code are records; dictionaries read from JSON documents are association
  lists (insertion order, as Python keeps it) or partial maps; every raise of the source
  is a value of \<open>error\<close>. What the script reads from outside (the clock, the \<^verbatim>\<open>gh\<close> and
  shell child processes, the git branch, the ISO timestamp parser of the standard library,
  the floating-point arithmetic of the platform) is a field of the record \<open>env\<close>; the
  files it reads and writes are the record \<open>world\<close>.
  Rendering of \<^verbatim>\<open>score.md\<close> and the commit/push step are external collaborators and are
  left out. A function that raises returns the error alone: what the script wrote before
  the exception is not part of the result.
\<close>

datatype error = ValueError | TypeError | KeyError | SystemExit int

text \<open>The five sub-score keys \<^verbatim>\<open>("product", "ai_fit", "reliability", "ecosystem", "momentum")\<close>.\<close>

datatype dim = Product | AiFit | Reliability | Ecosystem | Momentum

definition dims :: "dim list" where
  "dims = [Product, AiFit, Reliability, Ecosystem, Momentum]"

text \<open>One entry of \<^verbatim>\<open>snapshot["repos"]\<close>; \<open>pushed_at\<close> is an ISO string or \<^verbatim>\<open>None\<close>.\<close>

record metrics =
  stargazers_count :: int
  forks_count :: int
  open_issues_count :: int
  pushed_at :: "string option"

record snapshot =
  updated_at :: string
  repos :: "(string \<times> metrics) list"

record base_row =
  base_product :: int
  base_ai_fit :: int
  base_reliability :: int

record score_row =
  product :: int
  ai_fit :: int
  reliability :: int
  ecosystem :: int
  momentum :: int
  total :: int

definition REPOS :: "(string \<times> string) list" where
  "REPOS =
    [(''fileview'', ''Hiro-Chiba/fileview''),
     (''yazi'', ''sxyazi/yazi''),
     (''lf'', ''gokcehan/lf''),
     (''nnn'', ''jarun/nnn''),
     (''ranger'', ''ranger/ranger'')]"

definition FALLBACK_METRICS :: "(string \<times> metrics) list" where
  "FALLBACK_METRICS =
    [(''fileview'', \<lparr>stargazers_count = 0, forks_count = 0, open_issues_count = 0, pushed_at = None\<rparr>),
     (''yazi'', \<lparr>stargazers_count = 32179, forks_count = 701, open_issues_count = 73, pushed_at = None\<rparr>),
     (''lf'', \<lparr>stargazers_count = 9026, forks_count = 359, open_issues_count = 66, pushed_at = None\<rparr>),
     (''nnn'', \<lparr>stargazers_count = 21191, forks_count = 798, open_issues_count = 2, pushed_at = None\<rparr>),
     (''ranger'', \<lparr>stargazers_count = 16834, forks_count = 923, open_issues_count = 921, pushed_at = None\<rparr>)]"

definition BASE_SCORES :: "(string \<times> base_row) list" where
  "BASE_SCORES =
    [(''fileview'', \<lparr>base_product = 22, base_ai_fit = 18, base_reliability = 10\<rparr>),
     (''yazi'', \<lparr>base_product = 33, base_ai_fit = 6, base_reliability = 12\<rparr>),
     (''ranger'', \<lparr>base_product = 29, base_ai_fit = 4, base_reliability = 13\<rparr>),
     (''nnn'', \<lparr>base_product = 24, base_ai_fit = 3, base_reliability = 14\<rparr>),
     (''lf'', \<lparr>base_product = 24, base_ai_fit = 3, base_reliability = 13\<rparr>)]"

section \<open>Score engine\<close>

text \<open>
  \<^verbatim>\<open>ecosystem_score(stars, max_stars)\<close>. \<^verbatim>\<open>math.log10\<close> raises \<^verbatim>\<open>ValueError\<close> on an argument
  that is not positive; the divisor \<^verbatim>\<open>log10(max_stars + 1)\<close> is a positive float past the
  guard. The float computation itself is not modelled: \<open>round_ratio stars max_stars\<close>
  stands for the integer that
  \<^verbatim>\<open>round(math.log10(stars + 1) / math.log10(max_stars + 1) * 15)\<close> gives on the platform,
  and nothing is assumed of it.
\<close>

definition ecosystem_score :: "(int \<Rightarrow> int \<Rightarrow> int) \<Rightarrow> int \<Rightarrow> int \<Rightarrow> error + int" where
  "ecosystem_score round_ratio stars max_stars =
    (if max_stars \<le> 0 then Inr 1
     else if stars + 1 \<le> 0 then Inl ValueError
     else Inr (max 1 (min 15 (round_ratio stars max_stars))))"

text \<open>
  What \<^verbatim>\<open>datetime.fromisoformat\<close> returns: a datetime without an offset (naive) or one
  with an offset (aware), here the instant it denotes as an integer counting microseconds.
\<close>

datatype datetime = Naive int | Aware int

text \<open>
  \<^verbatim>\<open>momentum_score(pushed_at)\<close>. \<open>now\<close> is the reading of \<^verbatim>\<open>datetime.now(timezone.utc)\<close>
  the call makes, an aware instant; \<open>fromiso\<close> is the library's \<^verbatim>\<open>fromisoformat\<close> after
  the \<^verbatim>\<open>Z\<close> replacement, \<open>None\<close> where it raises \<^verbatim>\<open>ValueError\<close>. Subtracting a naive
  datetime from the aware \<open>now\<close> raises \<^verbatim>\<open>TypeError\<close>. \<^verbatim>\<open>timedelta.days\<close> is the floor of
  the difference in days.
\<close>

definition us_per_day :: int where
  "us_per_day = 86400000000"

definition days_since :: "int \<Rightarrow> int \<Rightarrow> int" where
  "days_since now pushed = max 0 ((now - pushed) div us_per_day)"

definition momentum_steps :: "int \<Rightarrow> int" where
  "momentum_steps days =
    (if days \<le> 1 then 10
     else if days \<le> 3 then 9
     else if days \<le> 7 then 8
     else if days \<le> 14 then 6
     else if days \<le> 30 then 4
     else 2)"

definition momentum_score ::
  "(string \<Rightarrow> datetime option) \<Rightarrow> int \<Rightarrow> string option \<Rightarrow> error + int" where
  "momentum_score fromiso now pushed_at_v =
    (case pushed_at_v of
       None \<Rightarrow> Inr 1
     | Some s \<Rightarrow>
         if s = [] then Inr 1
         else
           (case fromiso s of
              None \<Rightarrow> Inl ValueError
            | Some (Naive t) \<Rightarrow> Inl TypeError
            | Some (Aware pushed) \<Rightarrow> Inr (momentum_steps (days_since now pushed))))"

section \<open>Persisted documents, the environment and the world\<close>

datatype outcome = No_task | Major | Blocked | Failed | Done

text \<open>
  One entry of \<^verbatim>\<open>queue["tasks"]\<close>. The keys the code reads with \<^verbatim>\<open>.get\<close> are optional;
  an absent \<^verbatim>\<open>boost\<close> is the empty map. The keys \<^verbatim>\<open>id\<close> and \<^verbatim>\<open>title\<close>, read with
  \<^verbatim>\<open>[...]\<close>, are always there, so a task is never the empty dictionary, which
  \<^verbatim>\<open>if not todo\<close> would take for no task.
\<close>

record task =
  task_id :: string
  title :: string
  kind :: "string option"
  status :: "string option"
  command :: "string option"
  boost :: "dim \<Rightarrow> int option"
  result :: "string option"
  completed_at :: "string option"

text \<open>The cycle state document \<^verbatim>\<open>data/autopilot_state.json\<close>.\<close>

record cycle_state =
  fileview_boost :: "dim \<Rightarrow> int option"
  last_total :: "int option"
  no_delta_cycles :: int
  completed_tasks :: "string list"
  last_task_result :: "outcome option"
  last_cycle_at :: "string option"

text \<open>The places where the script reads the wall clock as an ISO string.\<close>

datatype site = At_fetch | At_escalation | At_completion | At_cycle_end

text \<open>
  What a cycle reads from outside: the checked-out branch, the outcome of the \<open>n\<close>-th
  \<^verbatim>\<open>gh api\<close> call for a repository (\<open>None\<close>: a non-zero return code), the return code and
  standard error of a shell command, the clock, the ISO parser, and the rounded float
  ratio of \<open>ecosystem_score\<close>.
\<close>

record env =
  branch :: string
  gh_api :: "string \<Rightarrow> nat \<Rightarrow> metrics option"
  shell :: "string \<Rightarrow> int \<times> string"
  utcnow_iso :: "site \<Rightarrow> string"
  now :: int
  fromiso :: "string \<Rightarrow> datetime option"
  round_ratio :: "int \<Rightarrow> int \<Rightarrow> int"

text \<open>
  The files (\<open>None\<close>: the file does not exist) and the list of commands handed to the
  shell so far.
\<close>

record world =
  state_file :: "cycle_state option"
  queue_file :: "task list option"
  snapshot_file :: "snapshot option"
  escalation_file :: "string option"
  shell_log :: "string list"

text \<open>What a cycle prints and returns.\<close>

record report =
  rep_task_result :: outcome
  rep_after :: int
  rep_delta :: int
  rep_code :: int

section \<open>Score engine: the table of scores\<close>

definition boost_get :: "(dim \<Rightarrow> int option) \<Rightarrow> dim \<Rightarrow> int" where
  "boost_get b k = (case b k of None \<Rightarrow> 0 | Some v \<Rightarrow> v)"

fun row_get :: "dim \<Rightarrow> score_row \<Rightarrow> int" where
  "row_get Product r = product r"
| "row_get AiFit r = ai_fit r"
| "row_get Reliability r = reliability r"
| "row_get Ecosystem r = ecosystem r"
| "row_get Momentum r = momentum r"

fun row_set :: "dim \<Rightarrow> int \<Rightarrow> score_row \<Rightarrow> score_row" where
  "row_set Product v r = r\<lparr>product := v\<rparr>"
| "row_set AiFit v r = r\<lparr>ai_fit := v\<rparr>"
| "row_set Reliability v r = r\<lparr>reliability := v\<rparr>"
| "row_set Ecosystem v r = r\<lparr>ecosystem := v\<rparr>"
| "row_set Momentum v r = r\<lparr>momentum := v\<rparr>"

text \<open>\<^verbatim>\<open>scores["fileview"][key] += int(boost.get(key, 0))\<close> for one key.\<close>

definition boost_row :: "(dim \<Rightarrow> int option) \<Rightarrow> dim \<Rightarrow> score_row \<Rightarrow> score_row" where
  "boost_row b k r = row_set k (row_get k r + boost_get b k) r"

definition apply_boosts ::
  "(string \<times> score_row) list \<Rightarrow> cycle_state \<Rightarrow> error + (string \<times> score_row) list" where
  "apply_boosts scores state =
    (case map_of scores ''fileview'' of
       None \<Rightarrow> Inl KeyError
     | Some _ \<Rightarrow>
         Inr (fold (\<lambda>k sc. AList.map_entry ''fileview'' (boost_row (fileview_boost state) k) sc)
                dims scores))"

text \<open>\<^verbatim>\<open>max(stars.values(), default=0)\<close> over every entry of the snapshot.\<close>

definition max_stars_of :: "(string \<times> metrics) list \<Rightarrow> int" where
  "max_stars_of rs =
    (case map (\<lambda>(k, v). stargazers_count v) rs of [] \<Rightarrow> 0 | x # xs \<Rightarrow> fold max xs x)"

text \<open>\<^verbatim>\<open>repos.get(key, {})\<close> followed by the two \<^verbatim>\<open>.get\<close> of the loop body.\<close>

definition stars_at :: "(string \<times> metrics) list \<Rightarrow> string \<Rightarrow> int" where
  "stars_at rs key = (case map_of rs key of None \<Rightarrow> 0 | Some v \<Rightarrow> stargazers_count v)"

definition pushed_at_at :: "(string \<times> metrics) list \<Rightarrow> string \<Rightarrow> string option" where
  "pushed_at_at rs key = (case map_of rs key of None \<Rightarrow> None | Some v \<Rightarrow> pushed_at v)"

definition sum_row :: "score_row \<Rightarrow> int" where
  "sum_row r = product r + ai_fit r + reliability r + ecosystem r + momentum r"

text \<open>The dictionary \<^verbatim>\<open>row\<close> of the loop body, with \<^verbatim>\<open>row["total"] = sum(row.values())\<close>.\<close>

definition plain_row :: "base_row \<Rightarrow> int \<Rightarrow> int \<Rightarrow> score_row" where
  "plain_row base eco mom =
    \<lparr>product = base_product base, ai_fit = base_ai_fit base,
     reliability = base_reliability base, ecosystem = eco, momentum = mom,
     total = base_product base + base_ai_fit base + base_reliability base + eco + mom\<rparr>"

text \<open>
  The loop \<^verbatim>\<open>for key in BASE_SCORES\<close>; an exception of \<^verbatim>\<open>ecosystem_score\<close> or of
  \<^verbatim>\<open>momentum_score\<close> ends it. The calls of \<^verbatim>\<open>momentum_score\<close> of one evaluation read the
  clock one after the other; the model gives them the one reading \<open>nw\<close>.
\<close>

fun score_rows ::
  "(int \<Rightarrow> int \<Rightarrow> int) \<Rightarrow> (string \<Rightarrow> datetime option) \<Rightarrow> int \<Rightarrow> (string \<times> metrics) list \<Rightarrow> int
    \<Rightarrow> (string \<times> base_row) list \<Rightarrow> error + (string \<times> score_row) list" where
  "score_rows rr fi nw rs max_stars [] = Inr []"
| "score_rows rr fi nw rs max_stars ((key, base) # rest) =
    (case ecosystem_score rr (stars_at rs key) max_stars of
       Inl e \<Rightarrow> Inl e
     | Inr eco \<Rightarrow>
         (case momentum_score fi nw (pushed_at_at rs key) of
            Inl e \<Rightarrow> Inl e
          | Inr mom \<Rightarrow>
              (case score_rows rr fi nw rs max_stars rest of
                 Inl e \<Rightarrow> Inl e
               | Inr rows \<Rightarrow> Inr ((key, plain_row base eco mom) # rows))))"

definition build_scores ::
  "(int \<Rightarrow> int \<Rightarrow> int) \<Rightarrow> (string \<Rightarrow> datetime option) \<Rightarrow> int \<Rightarrow> snapshot \<Rightarrow> cycle_state
    \<Rightarrow> error + (string \<times> score_row) list" where
  "build_scores rr fi nw snap state =
    (let rs = repos snap; max_stars = max_stars_of rs in
     case score_rows rr fi nw rs max_stars BASE_SCORES of
       Inl e \<Rightarrow> Inl e
     | Inr scores \<Rightarrow>
         (case apply_boosts scores state of
            Inl e \<Rightarrow> Inl e
          | Inr boosted \<Rightarrow>
              Inr (AList.map_entry ''fileview'' (\<lambda>r. r\<lparr>total := sum_row r\<rparr>) boosted)))"

section \<open>Metrics snapshot fetcher\<close>

text \<open>\<^verbatim>\<open>fetch_repo\<close>: up to three calls, the first success returns.\<close>

fun try_fetch :: "(nat \<Rightarrow> metrics option) \<Rightarrow> nat list \<Rightarrow> metrics option" where
  "try_fetch g [] = None"
| "try_fetch g (i # rest) = (case g i of Some d \<Rightarrow> Some d | None \<Rightarrow> try_fetch g rest)"

definition fetch_repo :: "env \<Rightarrow> string \<Rightarrow> metrics option" where
  "fetch_repo e repo = try_fetch (gh_api e repo) [0, 1, 2]"

text \<open>The body of the loop of \<^verbatim>\<open>fetch_market_snapshot\<close> for one key.\<close>

definition resolve_metrics ::
  "env \<Rightarrow> (string \<times> metrics) list \<Rightarrow> string \<Rightarrow> string \<Rightarrow> error + metrics" where
  "resolve_metrics e previous key repo =
    (case fetch_repo e repo of
       Some d \<Rightarrow> Inr d
     | None \<Rightarrow>
         (case map_of previous key of
            Some d \<Rightarrow> Inr d
          | None \<Rightarrow>
              (case map_of FALLBACK_METRICS key of
                 Some d \<Rightarrow> Inr d
               | None \<Rightarrow> Inl KeyError)))"

fun resolve_all ::
  "env \<Rightarrow> (string \<times> metrics) list \<Rightarrow> (string \<times> string) list
    \<Rightarrow> error + (string \<times> metrics) list" where
  "resolve_all e previous [] = Inr []"
| "resolve_all e previous ((key, repo) # rest) =
    (case resolve_metrics e previous key repo of
       Inl err \<Rightarrow> Inl err
     | Inr d \<Rightarrow>
         (case resolve_all e previous rest of
            Inl err \<Rightarrow> Inl err
          | Inr xs \<Rightarrow> Inr ((key, d) # xs)))"

definition fetch_market_snapshot :: "env \<Rightarrow> world \<Rightarrow> error + (snapshot \<times> world)" where
  "fetch_market_snapshot e w =
    (let previous = (case snapshot_file w of None \<Rightarrow> [] | Some p \<Rightarrow> repos p) in
     case resolve_all e previous REPOS of
       Inl err \<Rightarrow> Inl err
     | Inr rs \<Rightarrow>
         let snap = \<lparr>updated_at = utcnow_iso e At_fetch, repos = rs\<rparr>
         in Inr (snap, w\<lparr>snapshot_file := Some snap\<rparr>))"

section \<open>Task queue executor\<close>

text \<open>\<^verbatim>\<open>t.get("status", "todo") == "todo"\<close>.\<close>

definition is_todo :: "task \<Rightarrow> bool" where
  "is_todo t = (case status t of None \<Rightarrow> True | Some s \<Rightarrow> s = ''todo'')"

text \<open>The position of the task \<^verbatim>\<open>next(...)\<close> selects: the first one that is todo.\<close>

fun first_todo :: "task list \<Rightarrow> nat option" where
  "first_todo [] = None"
| "first_todo (t # ts) =
    (if is_todo t then Some 0
     else (case first_todo ts of None \<Rightarrow> None | Some i \<Rightarrow> Some (Suc i)))"

definition is_major :: "task \<Rightarrow> bool" where
  "is_major t = (case kind t of None \<Rightarrow> False | Some k \<Rightarrow> k = ''major'')"

definition escalation_line :: "env \<Rightarrow> task \<Rightarrow> string" where
  "escalation_line e t =
    ''- '' @ utcnow_iso e At_escalation @ '' | '' @ task_id t @ '' | '' @ title t
      @ '' | kind=major | action required'' @ [CHR 0x0A]"

definition write_escalation :: "env \<Rightarrow> task \<Rightarrow> world \<Rightarrow> world" where
  "write_escalation e t w =
    w\<lparr>escalation_file :=
        Some (case escalation_file w of
                Some old \<Rightarrow> old @ escalation_line e t
              | None \<Rightarrow> ''# Escalations'' @ [CHR 0x0A, CHR 0x0A] @ escalation_line e t)\<rparr>"

text \<open>
  The loop \<^verbatim>\<open>state["fileview_boost"][k] += int(task_boost.get(k, 0))\<close>: a key the state
  lacks raises \<^verbatim>\<open>KeyError\<close>.
\<close>

fun add_boosts ::
  "(dim \<Rightarrow> int option) \<Rightarrow> (dim \<Rightarrow> int option) \<Rightarrow> dim list \<Rightarrow> error + (dim \<Rightarrow> int option)" where
  "add_boosts sb tb [] = Inr sb"
| "add_boosts sb tb (k # ks) =
    (case sb k of
       None \<Rightarrow> Inl KeyError
     | Some v \<Rightarrow> add_boosts (sb(k \<mapsto> v + boost_get tb k)) tb ks)"

text \<open>\<^verbatim>\<open>cp.stderr[-800:]\<close>.\<close>

definition last_800 :: "string \<Rightarrow> string" where
  "last_800 s = drop (length s - 800) s"

definition block_task ::
  "nat \<Rightarrow> task list \<Rightarrow> cycle_state \<Rightarrow> world \<Rightarrow> outcome \<times> task list \<times> cycle_state \<times> world" where
  "block_task i queue state w =
    (let queue' = queue[i := (queue ! i)\<lparr>status := Some ''blocked'',
                                         result := Some ''missing command''\<rparr>]
     in (Blocked, queue', state, w\<lparr>queue_file := Some queue'\<rparr>))"

definition run_task ::
  "env \<Rightarrow> nat \<Rightarrow> string \<Rightarrow> task list \<Rightarrow> cycle_state \<Rightarrow> world
    \<Rightarrow> error + (outcome \<times> task list \<times> cycle_state \<times> world)" where
  "run_task e i cmd queue state w =
    (let todo = queue ! i;
         (returncode, stderr) = shell e cmd;
         w1 = w\<lparr>shell_log := shell_log w @ [cmd]\<rparr>
     in
       if returncode \<noteq> 0 then
         let queue' = queue[i := todo\<lparr>status := Some ''failed'',
                                      result := Some (last_800 stderr)\<rparr>]
         in Inr (Failed, queue', state, w1\<lparr>queue_file := Some queue'\<rparr>)
       else
         let queue' = queue[i := todo\<lparr>status := Some ''done'',
                                      completed_at := Some (utcnow_iso e At_completion)\<rparr>]
         in (case add_boosts (fileview_boost state) (boost todo) dims of
               Inl err \<Rightarrow> Inl err
             | Inr b \<Rightarrow>
                 Inr (Done, queue',
                      state\<lparr>fileview_boost := b,
                            completed_tasks := completed_tasks state @ [task_id todo]\<rparr>,
                      w1\<lparr>queue_file := Some queue'\<rparr>)))"

definition execute_task ::
  "env \<Rightarrow> task list \<Rightarrow> cycle_state \<Rightarrow> world
    \<Rightarrow> error + (outcome \<times> task list \<times> cycle_state \<times> world)" where
  "execute_task e queue state w =
    (case first_todo queue of
       None \<Rightarrow> Inr (No_task, queue, state, w)
     | Some i \<Rightarrow>
         if is_major (queue ! i) then
           Inr (Major, queue, state, write_escalation e (queue ! i) w)
         else
           (case command (queue ! i) of
              None \<Rightarrow> Inr (block_task i queue state w)
            | Some cmd \<Rightarrow>
                if cmd = [] then Inr (block_task i queue state w)
                else run_task e i cmd queue state w))"

section \<open>Cycle controller\<close>

definition load_state :: "world \<Rightarrow> cycle_state" where
  "load_state w =
    (case state_file w of
       Some st \<Rightarrow> st
     | None \<Rightarrow>
         \<lparr>fileview_boost = (\<lambda>k. Some 0), last_total = None, no_delta_cycles = 0,
          completed_tasks = [], last_task_result = None, last_cycle_at = None\<rparr>)"

definition load_queue :: "world \<Rightarrow> task list" where
  "load_queue w = (case queue_file w of Some q \<Rightarrow> q | None \<Rightarrow> [])"

text \<open>\<^verbatim>\<open>before = int(state["last_total"] or 0)\<close>.\<close>

definition before_total :: "cycle_state \<Rightarrow> int" where
  "before_total st = (case last_total st of None \<Rightarrow> 0 | Some n \<Rightarrow> n)"

text \<open>\<^verbatim>\<open>delta = after - before if before else 0\<close>.\<close>

definition cycle_delta :: "int \<Rightarrow> int \<Rightarrow> int" where
  "cycle_delta before after = (if before \<noteq> 0 then after - before else 0)"

definition next_no_delta :: "outcome \<Rightarrow> int \<Rightarrow> int \<Rightarrow> int" where
  "next_no_delta task_result delta n =
    (if task_result = Done then (if delta = 0 then n + 1 else 0) else n)"

definition decision :: "outcome \<Rightarrow> int \<Rightarrow> int" where
  "decision task_result n = (if task_result = Major then 10 else if 2 \<le> n then 11 else 0)"

definition run_cycle :: "env \<Rightarrow> world \<Rightarrow> error + (report \<times> world)" where
  "run_cycle e w =
    (if branch e \<noteq> ''develop'' then Inl (SystemExit 2)
     else
       let state = load_state w;
           queue = load_queue w;
           before = before_total state
       in
         case fetch_market_snapshot e w of
           Inl err \<Rightarrow> Inl err
         | Inr (snap, w1) \<Rightarrow>
             (case execute_task e queue state w1 of
                Inl err \<Rightarrow> Inl err
              | Inr (task_result, queue', state1, w2) \<Rightarrow>
                  (case build_scores (round_ratio e) (fromiso e) (now e) snap state1 of
                     Inl err \<Rightarrow> Inl err
                   | Inr scores \<Rightarrow>
                       (case map_of scores ''fileview'' of
                          None \<Rightarrow> Inl KeyError
                        | Some row \<Rightarrow>
                            let after = total row;
                                delta = cycle_delta before after;
                                n = next_no_delta task_result delta (no_delta_cycles state1);
                                state2 = state1\<lparr>no_delta_cycles := n,
                                               last_total := Some after,
                                               last_task_result := Some task_result,
                                               last_cycle_at := Some (utcnow_iso e At_cycle_end)\<rparr>
                            in Inr (\<lparr>rep_task_result = task_result, rep_after = after,
                                     rep_delta = delta, rep_code = decision task_result n\<rparr>,
                                    w2\<lparr>state_file := Some state2\<rparr>)))))"

text \<open>The data model's invariant of a snapshot: no star count is negative.\<close>

definition stars_nonneg :: "snapshot \<Rightarrow> bool" where
  "stars_nonneg snap = list_all (\<lambda>(k, v). 0 \<le> stargazers_count v) (repos snap)"

text \<open>
  A timestamp \<open>momentum_score\<close> accepts: absent, empty, or parsed to a datetime with an
  offset; and a snapshot in which every scored entity has such a timestamp.
\<close>

definition stamp_ok :: "(string \<Rightarrow> datetime option) \<Rightarrow> string option \<Rightarrow> bool" where
  "stamp_ok fi p =
    (case p of
       None \<Rightarrow> True
     | Some s \<Rightarrow> s = [] \<or> (case fi s of Some (Aware t) \<Rightarrow> True | _ \<Rightarrow> False))"

definition stamps_ok :: "(string \<Rightarrow> datetime option) \<Rightarrow> snapshot \<Rightarrow> bool" where
  "stamps_ok fi snap = list_all (\<lambda>(key, base). stamp_ok fi (pushed_at_at (repos snap) key)) BASE_SCORES"

section \<open>Concrete inputs\<close>

text \<open>Snapshots, states, queues and environments the closed theorems below run the code on.\<close>

definition fallback_snapshot :: snapshot where
  "fallback_snapshot = \<lparr>updated_at = ''2026-01-01T00:00:00Z'', repos = FALLBACK_METRICS\<rparr>"

definition pushed_snapshot :: snapshot where
  "pushed_snapshot =
    \<lparr>updated_at = ''2026-01-01T00:00:00Z'',
     repos = AList.update ''fileview''
       \<lparr>stargazers_count = 0, forks_count = 0, open_issues_count = 0,
        pushed_at = Some ''2026-01-01T00:00:00Z''\<rparr> FALLBACK_METRICS\<rparr>"

text \<open>
  A parser that knows two timestamps, one with and one without an offset, and rejects
  every other string; instants count from 2026-01-01T00:00:00Z.
\<close>

definition iso_parser :: "string \<Rightarrow> datetime option" where
  "iso_parser s =
    (if s = ''2026-01-01T00:00:00Z'' then Some (Aware 0)
     else if s = ''2026-01-01T00:00:00'' then Some (Naive 0)
     else None)"

text \<open>
  The rounded float ratios of the star counts of \<open>FALLBACK_METRICS\<close> against the largest
  of them, 32179, in IEEE double arithmetic: \<^verbatim>\<open>log10(1)\<close> is \<^verbatim>\<open>0.0\<close>, so 0 stars give 0; the
  largest count gives \<^verbatim>\<open>1.0 * 15\<close>; 9026, 16834 and 21191 give 13.16, 14.06 and 14.40. No
  other argument occurs below.
\<close>

definition table_ratio :: "int \<Rightarrow> int \<Rightarrow> int" where
  "table_ratio stars max_stars =
    (if stars = 0 then 0
     else if stars = max_stars then 15
     else if stars = 9026 then 13
     else if stars = 16834 then 14
     else if stars = 21191 then 14
     else 0)"

definition fresh_state :: cycle_state where
  "fresh_state =
    \<lparr>fileview_boost = (\<lambda>k. Some 0), last_total = None, no_delta_cycles = 0,
     completed_tasks = [], last_task_result = None, last_cycle_at = None\<rparr>"

definition boosted_state :: cycle_state where
  "boosted_state = fresh_state\<lparr>fileview_boost := (\<lambda>k. Some 0)(Ecosystem \<mapsto> 15, Momentum \<mapsto> 10)\<rparr>"

text \<open>
  An environment on the right branch whose \<^verbatim>\<open>gh\<close> calls all fail, whose shell fails the
  command \<^verbatim>\<open>false\<close> and succeeds on every other one, and whose clock stands still; and
  one that differs in that the second \<^verbatim>\<open>gh\<close> call for \<^verbatim>\<open>jarun/nnn\<close> succeeds.
\<close>

definition no_network :: "string \<Rightarrow> nat \<Rightarrow> metrics option" where
  "no_network repo n = None"

definition plain_shell :: "string \<Rightarrow> int \<times> string" where
  "plain_shell cmd = (if cmd = ''false'' then (1, ''boom'') else (0, []))"

definition fixed_clock :: "site \<Rightarrow> string" where
  "fixed_clock s = ''2026-01-01T00:00:00Z''"

definition quiet_env :: env where
  "quiet_env =
    \<lparr>branch = ''develop'', gh_api = no_network, shell = plain_shell,
     utcnow_iso = fixed_clock, now = 0, fromiso = iso_parser, round_ratio = table_ratio\<rparr>"

definition live_nnn :: metrics where
  "live_nnn =
    \<lparr>stargazers_count = 21191, forks_count = 800, open_issues_count = 3,
     pushed_at = Some ''2026-01-01T00:00:00Z''\<rparr>"

definition flaky_network :: "string \<Rightarrow> nat \<Rightarrow> metrics option" where
  "flaky_network repo n = (if repo = ''jarun/nnn'' \<and> n = 1 then Some live_nnn else None)"

definition flaky_env :: env where
  "flaky_env = quiet_env\<lparr>gh_api := flaky_network\<rparr>"

definition no_boost :: "dim \<Rightarrow> int option" where
  "no_boost k = None"

definition plain_task :: "string \<Rightarrow> task" where
  "plain_task i =
    \<lparr>task_id = i, title = ''tidy'', kind = Some ''normal'', status = Some ''todo'',
     command = Some ''true'', boost = no_boost, result = None, completed_at = None\<rparr>"

definition done_task :: "string \<Rightarrow> task" where
  "done_task i =
    (plain_task i)\<lparr>status := Some ''done'', completed_at := Some ''2026-01-01T00:00:00Z''\<rparr>"

definition major_task :: task where
  "major_task = (plain_task ''m1'')\<lparr>title := ''choose a licence'', kind := Some ''major''\<rparr>"

definition empty_world :: world where
  "empty_world =
    \<lparr>state_file = None, queue_file = None, snapshot_file = None, escalation_file = None,
     shell_log = []\<rparr>"


text \<open>A world whose snapshot file holds a record of fileview with a push timestamp.\<close>

definition prior_world :: world where
  "prior_world = empty_world\<lparr>snapshot_file := Some pushed_snapshot\<rparr>"

text \<open>The fileview total on the fallback snapshot: 22 + 18 + 10 + 1 + 1 and the boosts.\<close>

definition boosted_total :: "cycle_state \<Rightarrow> int" where
  "boosted_total st =
    52 + boost_get (fileview_boost st) Product + boost_get (fileview_boost st) AiFit
       + boost_get (fileview_boost st) Reliability + boost_get (fileview_boost st) Ecosystem
       + boost_get (fileview_boost st) Momentum"

text \<open>
  Worlds as a cycle leaves them, and three queues: one with two plain tasks and a major
  one, one with a task that declares the increment \<open>- 52\<close> and a task that declares 5, and
  one with a finished task and the task that declares 5.
\<close>

definition zero_boost :: "dim \<Rightarrow> int option" where
  "zero_boost k = Some 0"

definition sunk_boost :: "dim \<Rightarrow> int option" where
  "sunk_boost k = Some (if k = Product then - 52 else 0)"

definition lifted_boost :: "dim \<Rightarrow> int option" where
  "lifted_boost k = Some (if k = Product then - 47 else 0)"

definition cycled_state ::
  "(dim \<Rightarrow> int option) \<Rightarrow> int \<Rightarrow> int \<Rightarrow> string list \<Rightarrow> outcome \<Rightarrow> cycle_state" where
  "cycled_state b tot n ids res =
    \<lparr>fileview_boost = b, last_total = Some tot, no_delta_cycles = n, completed_tasks = ids,
     last_task_result = Some res, last_cycle_at = Some ''2026-01-01T00:00:00Z''\<rparr>"

definition cycled_world ::
  "cycle_state \<Rightarrow> task list \<Rightarrow> string option \<Rightarrow> string list \<Rightarrow> world" where
  "cycled_world st q esc cmds =
    \<lparr>state_file = Some st, queue_file = Some q, snapshot_file = Some fallback_snapshot,
     escalation_file = esc, shell_log = cmds\<rparr>"

definition stagnant_world_0 :: world where
  "stagnant_world_0 =
    empty_world\<lparr>queue_file := Some [plain_task ''t1'', plain_task ''t2'', major_task]\<rparr>"

definition stagnant_world_1 :: world where
  "stagnant_world_1 =
    cycled_world (cycled_state zero_boost 52 1 [''t1''] Done)
      [done_task ''t1'', plain_task ''t2'', major_task] None [''true'']"

definition stagnant_world_2 :: world where
  "stagnant_world_2 =
    cycled_world (cycled_state zero_boost 52 2 [''t1'', ''t2''] Done)
      [done_task ''t1'', done_task ''t2'', major_task] None [''true'', ''true'']"

definition stagnant_world_3 :: world where
  "stagnant_world_3 =
    cycled_world (cycled_state zero_boost 52 2 [''t1'', ''t2''] Major)
      [done_task ''t1'', done_task ''t2'', major_task]
      (Some (''# Escalations'' @ [CHR 0x0A, CHR 0x0A]
         @ ''- 2026-01-01T00:00:00Z | m1 | choose a licence | kind=major | action required''
         @ [CHR 0x0A]))
      [''true'', ''true'']"

definition sink_task :: task where
  "sink_task = (plain_task ''s1'')\<lparr>boost := no_boost(Product \<mapsto> - 52)\<rparr>"

definition lift_task :: task where
  "lift_task = (plain_task ''l1'')\<lparr>boost := no_boost(Product \<mapsto> 5)\<rparr>"

definition gained_boost :: "dim \<Rightarrow> int option" where
  "gained_boost k = Some (if k = Product then 5 else 0)"

definition gain_world_1 :: world where
  "gain_world_1 =
    cycled_world (cycled_state zero_boost 52 1 [''t1''] Done)
      [done_task ''t1'', lift_task] None [''true'']"

definition gain_world_2 :: world where
  "gain_world_2 =
    cycled_world (cycled_state gained_boost 57 0 [''t1'', ''l1''] Done)
      [done_task ''t1'',
       lift_task\<lparr>status := Some ''done'', completed_at := Some ''2026-01-01T00:00:00Z''\<rparr>]
      None [''true'', ''true'']"

definition sink_world_0 :: world where
  "sink_world_0 = empty_world\<lparr>queue_file := Some [sink_task, lift_task]\<rparr>"

definition sink_world_1 :: world where
  "sink_world_1 =
    cycled_world (cycled_state sunk_boost 0 1 [''s1''] Done)
      [sink_task\<lparr>status := Some ''done'', completed_at := Some ''2026-01-01T00:00:00Z''\<rparr>,
       lift_task] None [''true'']"

definition sink_world_2 :: world where
  "sink_world_2 =
    cycled_world (cycled_state lifted_boost 5 2 [''s1'', ''l1''] Done)
      [sink_task\<lparr>status := Some ''done'', completed_at := Some ''2026-01-01T00:00:00Z''\<rparr>,
       lift_task\<lparr>status := Some ''done'', completed_at := Some ''2026-01-01T00:00:00Z''\<rparr>]
      None [''true'', ''true'']"

section \<open>Properties of the score engine\<close>

lemma ecosystem_score_total:
  assumes "0 \<le> s"
  shows "\<exists>v. ecosystem_score rr s m = Inr v \<and> 1 \<le> v \<and> v \<le> 15"
  using assms by (simp add: ecosystem_score_def)

lemma momentum_steps_bounds: "1 \<le> momentum_steps d \<and> momentum_steps d \<le> 10"
  by (simp add: momentum_steps_def)

lemma momentum_score_range:
  assumes "momentum_score fi nw p = Inr v"
  shows "1 \<le> v \<and> v \<le> 10"
proof (cases p)
  case None
  with assms show ?thesis by (simp add: momentum_score_def)
next
  case (Some s)
  show ?thesis
  proof (cases "s = []")
    case True
    with assms Some show ?thesis by (simp add: momentum_score_def)
  next
    case False
    with assms Some obtain t where "v = momentum_steps (days_since nw t)"
      by (auto simp add: momentum_score_def split: option.splits datetime.splits)
    then show ?thesis by (simp add: momentum_steps_bounds)
  qed
qed

lemma momentum_score_returns:
  "(\<exists>v. momentum_score fi nw p = Inr v) = stamp_ok fi p"
  by (simp add: momentum_score_def stamp_ok_def split: option.split datetime.split)

lemma momentum_score_malformed:
  assumes "s \<noteq> []" and "fi s = None"
  shows "momentum_score fi nw (Some s) = Inl ValueError"
  using assms by (simp add: momentum_score_def)

lemma momentum_score_naive:
  assumes "s \<noteq> []" and "fi s = Some (Naive t)"
  shows "momentum_score fi nw (Some s) = Inl TypeError"
  using assms by (simp add: momentum_score_def)

text \<open>
  Claim C6, as amended. For non-negative \<open>stars\<close> and \<open>max_stars\<close>, \<open>ecosystem_score\<close>
  raises nothing and returns a value between 1 and 15, whatever the float arithmetic
  rounds to, and \<open>ecosystem_score 0 0\<close> is 1, the guard \<^verbatim>\<open>max_stars <= 0\<close> returning before
  any logarithm or division. \<open>momentum_score\<close> returns exactly when the timestamp is
  absent, empty, or parses to a datetime with an offset, and the value is then between 1
  and 10; on a non-empty string the parser rejects it raises \<^verbatim>\<open>ValueError\<close>, and on one
  that parses to a datetime without an offset it raises \<^verbatim>\<open>TypeError\<close>.
\<close>

theorem score_ranges:
  assumes "0 \<le> stars" and "0 \<le> max_stars"
  shows "(\<exists>v. ecosystem_score rr stars max_stars = Inr v \<and> 1 \<le> v \<and> v \<le> 15)
       \<and> ecosystem_score rr 0 0 = Inr 1
       \<and> (\<exists>v. momentum_score fi nw p = Inr v) = stamp_ok fi p
       \<and> (\<forall>v. momentum_score fi nw p = Inr v \<longrightarrow> 1 \<le> v \<and> v \<le> 10)
       \<and> (\<forall>s. s \<noteq> [] \<and> fi s = None \<longrightarrow> momentum_score fi nw (Some s) = Inl ValueError)
       \<and> (\<forall>s t. s \<noteq> [] \<and> fi s = Some (Naive t)
             \<longrightarrow> momentum_score fi nw (Some s) = Inl TypeError)"
proof -
  have a: "ecosystem_score rr 0 0 = Inr 1" by (simp add: ecosystem_score_def)
  have b: "\<forall>v. momentum_score fi nw p = Inr v \<longrightarrow> 1 \<le> v \<and> v \<le> 10"
    using momentum_score_range by blast
  have c: "\<forall>s. s \<noteq> [] \<and> fi s = None \<longrightarrow> momentum_score fi nw (Some s) = Inl ValueError"
    using momentum_score_malformed by blast
  have d: "\<forall>s t. s \<noteq> [] \<and> fi s = Some (Naive t)
             \<longrightarrow> momentum_score fi nw (Some s) = Inl TypeError"
    using momentum_score_naive by blast
  from ecosystem_score_total [OF assms(1)] a momentum_score_returns b c d
  show ?thesis by blast
qed

theorem score_ranges_witness:
  "(0::int) \<le> 9026 \<and> (0::int) \<le> 32179
   \<and> ecosystem_score table_ratio 9026 32179 = Inr 13
   \<and> ecosystem_score table_ratio 0 0 = Inr 1
   \<and> stamp_ok iso_parser (Some ''2026-01-01T00:00:00Z'')
   \<and> momentum_score iso_parser (2 * us_per_day) (Some ''2026-01-01T00:00:00Z'') = Inr 9
   \<and> ''2026-01-01T00:00:00'' \<noteq> [] \<and> iso_parser ''2026-01-01T00:00:00'' = Some (Naive 0)
   \<and> momentum_score iso_parser (2 * us_per_day) (Some ''2026-01-01T00:00:00'') = Inl TypeError"
  using score_ranges [of 9026 32179 table_ratio iso_parser "2 * us_per_day"
      "Some ''2026-01-01T00:00:00Z''"]
  by (simp add: ecosystem_score_def table_ratio_def stamp_ok_def iso_parser_def
      momentum_score_def momentum_steps_def days_since_def us_per_day_def)

text \<open>
  The claim as stated fails: \<open>momentum_score\<close> returns no value on a string that is no
  ISO timestamp, nor on a timestamp without an offset.
\<close>

theorem malformed_timestamp_counterexample:
  "momentum_score iso_parser 0 (Some ''not a timestamp'') = Inl ValueError
   \<and> momentum_score iso_parser 0 (Some ''2026-01-01T00:00:00'') = Inl TypeError"
  by (simp add: momentum_score_def iso_parser_def)

lemma score_rows_head:
  assumes "score_rows rr fi nw rs m ((key, base) # rest) = Inr rows"
  shows "\<exists>eco mom rows0.
           ecosystem_score rr (stars_at rs key) m = Inr eco
         \<and> momentum_score fi nw (pushed_at_at rs key) = Inr mom
         \<and> score_rows rr fi nw rs m rest = Inr rows0
         \<and> rows = (key, plain_row base eco mom) # rows0"
proof (cases "ecosystem_score rr (stars_at rs key) m")
  case (Inl e)
  with assms show ?thesis by simp
next
  case eco: (Inr eco)
  show ?thesis
  proof (cases "momentum_score fi nw (pushed_at_at rs key)")
    case (Inl e)
    with assms eco show ?thesis by simp
  next
    case mom: (Inr mom)
    show ?thesis
    proof (cases "score_rows rr fi nw rs m rest")
      case (Inl e)
      with assms eco mom show ?thesis by simp
    next
      case (Inr rows0)
      with assms eco mom show ?thesis by simp
    qed
  qed
qed

lemma score_rows_total:
  assumes "\<And>key. \<exists>eco. ecosystem_score rr (stars_at rs key) m = Inr eco"
    and "list_all (\<lambda>(key, base). stamp_ok fi (pushed_at_at rs key)) bs"
  shows "\<exists>rows. score_rows rr fi nw rs m bs = Inr rows"
  using assms(2)
proof (induction bs)
  case Nil
  show ?case by simp
next
  case (Cons kb bs)
  obtain key base where kb: "kb = (key, base)" by (cases kb)
  obtain eco where eco: "ecosystem_score rr (stars_at rs key) m = Inr eco"
    using assms(1) [of key] by blast
  from Cons.prems have "stamp_ok fi (pushed_at_at rs key)" by (simp add: kb)
  then obtain mom where mom: "momentum_score fi nw (pushed_at_at rs key) = Inr mom"
    using momentum_score_returns [of fi nw "pushed_at_at rs key"] by blast
  from Cons.prems have "list_all (\<lambda>(key, base). stamp_ok fi (pushed_at_at rs key)) bs"
    by simp
  then obtain rows0 where rest: "score_rows rr fi nw rs m bs = Inr rows0"
    using Cons.IH by blast
  show ?case by (simp add: kb eco mom rest)
qed

lemma apply_boosts_head:
  "apply_boosts ((''fileview'', r) # rest) st =
    Inr ((''fileview'', fold (boost_row (fileview_boost st)) dims r) # rest)"
  by (simp add: apply_boosts_def dims_def)

lemma fold_boost_row:
  "fold (boost_row b) dims r =
    r\<lparr>product := product r + boost_get b Product,
      ai_fit := ai_fit r + boost_get b AiFit,
      reliability := reliability r + boost_get b Reliability,
      ecosystem := ecosystem r + boost_get b Ecosystem,
      momentum := momentum r + boost_get b Momentum\<rparr>"
  by (simp add: dims_def boost_row_def)

lemma stars_at_nonneg: "stars_nonneg snap \<Longrightarrow> 0 \<le> stars_at (repos snap) key"
  by (auto simp add: stars_nonneg_def stars_at_def list_all_iff split: option.split dest!: map_of_SomeD)

lemma base_scores_head:
  "BASE_SCORES =
    (''fileview'', \<lparr>base_product = 22, base_ai_fit = 18, base_reliability = 10\<rparr>) # tl BASE_SCORES"
  by (simp add: BASE_SCORES_def)

text \<open>The fileview row of a table \<open>build_scores\<close> returns.\<close>

lemma build_scores_fileview:
  assumes "build_scores rr fi nw snap st = Inr rows"
  shows "\<exists>r eco mom.
           map_of rows ''fileview'' = Some r
         \<and> ecosystem_score rr (stars_at (repos snap) ''fileview'') (max_stars_of (repos snap)) = Inr eco
         \<and> momentum_score fi nw (pushed_at_at (repos snap) ''fileview'') = Inr mom
         \<and> product r = 22 + boost_get (fileview_boost st) Product
         \<and> ai_fit r = 18 + boost_get (fileview_boost st) AiFit
         \<and> reliability r = 10 + boost_get (fileview_boost st) Reliability
         \<and> ecosystem r = eco + boost_get (fileview_boost st) Ecosystem
         \<and> momentum r = mom + boost_get (fileview_boost st) Momentum
         \<and> total r = product r + ai_fit r + reliability r + ecosystem r + momentum r"
proof -
  let ?rs = "repos snap" and ?m = "max_stars_of (repos snap)"
  let ?b = "\<lparr>base_product = 22, base_ai_fit = 18, base_reliability = (10::int)\<rparr>"
  obtain scores where sc: "score_rows rr fi nw ?rs ?m BASE_SCORES = Inr scores"
    using assms by (cases "score_rows rr fi nw ?rs ?m BASE_SCORES") (simp_all add: build_scores_def)
  from sc have "score_rows rr fi nw ?rs ?m ((''fileview'', ?b) # tl BASE_SCORES) = Inr scores"
    using base_scores_head by simp
  from score_rows_head [OF this] obtain eco mom rows0 where
    eco: "ecosystem_score rr (stars_at ?rs ''fileview'') ?m = Inr eco"
    and mom: "momentum_score fi nw (pushed_at_at ?rs ''fileview'') = Inr mom"
    and scores: "scores = (''fileview'', plain_row ?b eco mom) # rows0"
    by blast
  have "build_scores rr fi nw snap st =
    Inr ((''fileview'',
          (fold (boost_row (fileview_boost st)) dims (plain_row ?b eco mom))
            \<lparr>total := sum_row (fold (boost_row (fileview_boost st)) dims (plain_row ?b eco mom))\<rparr>)
         # rows0)"
    by (simp add: build_scores_def sc scores apply_boosts_head)
  with assms have rows: "rows = (''fileview'',
          (fold (boost_row (fileview_boost st)) dims (plain_row ?b eco mom))
            \<lparr>total := sum_row (fold (boost_row (fileview_boost st)) dims (plain_row ?b eco mom))\<rparr>)
         # rows0"
    by simp
  show ?thesis
    unfolding rows using eco mom
    by (simp add: fold_boost_row plain_row_def sum_row_def)
qed

text \<open>\<open>build_scores\<close> returns on a snapshot of the data model whose timestamps parse.\<close>

lemma build_scores_total:
  assumes "stars_nonneg snap" and "stamps_ok fi snap"
  shows "\<exists>rows. build_scores rr fi nw snap st = Inr rows"
proof -
  let ?rs = "repos snap" and ?m = "max_stars_of (repos snap)"
  let ?b = "\<lparr>base_product = 22, base_ai_fit = 18, base_reliability = (10::int)\<rparr>"
  have "\<And>key. \<exists>eco. ecosystem_score rr (stars_at ?rs key) ?m = Inr eco"
    using ecosystem_score_total [OF stars_at_nonneg [OF assms(1)]] by blast
  moreover from assms(2)
  have "list_all (\<lambda>(key, base). stamp_ok fi (pushed_at_at ?rs key)) BASE_SCORES"
    by (simp add: stamps_ok_def)
  ultimately obtain scores where sc: "score_rows rr fi nw ?rs ?m BASE_SCORES = Inr scores"
    using score_rows_total [of rr ?rs ?m fi BASE_SCORES nw] by blast
  from sc have "score_rows rr fi nw ?rs ?m ((''fileview'', ?b) # tl BASE_SCORES) = Inr scores"
    using base_scores_head by simp
  from score_rows_head [OF this] obtain eco mom rows0 where
    scores: "scores = (''fileview'', plain_row ?b eco mom) # rows0"
    by blast
  show ?thesis by (simp add: build_scores_def sc scores apply_boosts_head)
qed

lemma stars_nonneg_fallback: "stars_nonneg fallback_snapshot"
  by (simp add: stars_nonneg_def fallback_snapshot_def FALLBACK_METRICS_def)

lemma stars_nonneg_pushed: "stars_nonneg pushed_snapshot"
  by (simp add: stars_nonneg_def pushed_snapshot_def FALLBACK_METRICS_def)

lemma stamps_ok_fallback: "stamps_ok fi fallback_snapshot"
  by (simp add: stamps_ok_def stamp_ok_def BASE_SCORES_def pushed_at_at_def
      fallback_snapshot_def FALLBACK_METRICS_def)

lemma stamps_ok_pushed: "stamps_ok iso_parser pushed_snapshot"
  by (simp add: stamps_ok_def stamp_ok_def BASE_SCORES_def pushed_at_at_def
      pushed_snapshot_def FALLBACK_METRICS_def iso_parser_def)

lemma max_stars_fallback: "max_stars_of FALLBACK_METRICS = 32179"
  by (simp add: max_stars_of_def FALLBACK_METRICS_def)

lemma pushed_at_fileview_pushed:
  "pushed_at_at (repos pushed_snapshot) ''fileview'' = Some ''2026-01-01T00:00:00Z''"
  by (simp add: pushed_at_at_def pushed_snapshot_def FALLBACK_METRICS_def)

lemma pushed_at_fileview_fallback:
  "pushed_at_at (repos fallback_snapshot) ''fileview'' = None"
  by (simp add: pushed_at_at_def fallback_snapshot_def FALLBACK_METRICS_def)

lemma eco_fileview_fallback:
  "ecosystem_score table_ratio (stars_at (repos fallback_snapshot) ''fileview'')
     (max_stars_of (repos fallback_snapshot)) = Inr 1"
proof -
  have "stars_at FALLBACK_METRICS ''fileview'' = 0"
    by (simp add: stars_at_def FALLBACK_METRICS_def)
  then show ?thesis
    by (simp add: fallback_snapshot_def max_stars_fallback ecosystem_score_def table_ratio_def)
qed

lemma eco_fileview_pushed:
  "ecosystem_score table_ratio (stars_at (repos pushed_snapshot) ''fileview'')
     (max_stars_of (repos pushed_snapshot)) = Inr 1"
proof -
  have "stars_at (repos pushed_snapshot) ''fileview'' = 0"
    by (simp add: stars_at_def pushed_snapshot_def FALLBACK_METRICS_def)
  moreover have "max_stars_of (repos pushed_snapshot) = 32179"
    by (simp add: max_stars_of_def pushed_snapshot_def FALLBACK_METRICS_def)
  ultimately show ?thesis by (simp add: ecosystem_score_def table_ratio_def)
qed

text \<open>
  Claim C10. \<open>apply_boosts\<close> adds the boost to all five sub-scores of fileview: in every
  table \<open>build_scores\<close> returns, the fileview row holds the base values 22, 18 and 10, the
  value \<open>ecosystem_score\<close> returned and the value \<open>momentum_score\<close> returned, each plus its
  boost offset (an absent offset counts 0), and their sum as total; and \<open>build_scores\<close>
  returns on every snapshot without negative star counts whose timestamps
  \<open>momentum_score\<close> accepts. The clamps of \<open>ecosystem_score\<close> and \<open>momentum_score\<close> are
  applied before the boost: on the fallback snapshot with boosts 15 and 10 the row
  reports ecosystem 16 and momentum 11.
\<close>

theorem boosts_reach_all_dims:
  "(\<forall>rows. build_scores rr fi nw snap st = Inr rows \<longrightarrow>
      (\<exists>r eco mom.
           map_of rows ''fileview'' = Some r
         \<and> ecosystem_score rr (stars_at (repos snap) ''fileview'') (max_stars_of (repos snap)) = Inr eco
         \<and> momentum_score fi nw (pushed_at_at (repos snap) ''fileview'') = Inr mom
         \<and> product r = 22 + boost_get (fileview_boost st) Product
         \<and> ai_fit r = 18 + boost_get (fileview_boost st) AiFit
         \<and> reliability r = 10 + boost_get (fileview_boost st) Reliability
         \<and> ecosystem r = eco + boost_get (fileview_boost st) Ecosystem
         \<and> momentum r = mom + boost_get (fileview_boost st) Momentum
         \<and> total r = product r + ai_fit r + reliability r + ecosystem r + momentum r))
   \<and> (stars_nonneg snap \<and> stamps_ok fi snap
        \<longrightarrow> (\<exists>rows. build_scores rr fi nw snap st = Inr rows))
   \<and> (\<exists>rows r.
           build_scores table_ratio iso_parser nw fallback_snapshot boosted_state = Inr rows
         \<and> map_of rows ''fileview'' = Some r
         \<and> 15 < ecosystem r \<and> ecosystem r = 16 \<and> 10 < momentum r \<and> momentum r = 11)"
proof -
  obtain rows where f: "build_scores table_ratio iso_parser nw fallback_snapshot boosted_state = Inr rows"
    using build_scores_total [OF stars_nonneg_fallback stamps_ok_fallback] by blast
  from build_scores_fileview [OF f] obtain r eco mom where g:
    "map_of rows ''fileview'' = Some r"
    "ecosystem_score table_ratio (stars_at (repos fallback_snapshot) ''fileview'')
       (max_stars_of (repos fallback_snapshot)) = Inr eco"
    "momentum_score iso_parser nw (pushed_at_at (repos fallback_snapshot) ''fileview'') = Inr mom"
    "ecosystem r = eco + boost_get (fileview_boost boosted_state) Ecosystem"
    "momentum r = mom + boost_get (fileview_boost boosted_state) Momentum"
    by blast
  from g(2) have "eco = 1" by (simp add: eco_fileview_fallback)
  with g(4) have e: "ecosystem r = 16" by (simp add: boosted_state_def boost_get_def)
  from g(3) have "mom = 1" by (simp add: pushed_at_fileview_fallback momentum_score_def)
  with g(5) have m: "momentum r = 11" by (simp add: boosted_state_def boost_get_def)
  from f g(1) e m have c: "\<exists>rows r.
           build_scores table_ratio iso_parser nw fallback_snapshot boosted_state = Inr rows
         \<and> map_of rows ''fileview'' = Some r
         \<and> 15 < ecosystem r \<and> ecosystem r = 16 \<and> 10 < momentum r \<and> momentum r = 11"
    by simp
  show ?thesis
  proof (rule conjI)
    show "\<forall>rows. build_scores rr fi nw snap st = Inr rows \<longrightarrow>
      (\<exists>r eco mom.
           map_of rows ''fileview'' = Some r
         \<and> ecosystem_score rr (stars_at (repos snap) ''fileview'') (max_stars_of (repos snap)) = Inr eco
         \<and> momentum_score fi nw (pushed_at_at (repos snap) ''fileview'') = Inr mom
         \<and> product r = 22 + boost_get (fileview_boost st) Product
         \<and> ai_fit r = 18 + boost_get (fileview_boost st) AiFit
         \<and> reliability r = 10 + boost_get (fileview_boost st) Reliability
         \<and> ecosystem r = eco + boost_get (fileview_boost st) Ecosystem
         \<and> momentum r = mom + boost_get (fileview_boost st) Momentum
         \<and> total r = product r + ai_fit r + reliability r + ecosystem r + momentum r)"
      by (intro allI impI) (rule build_scores_fileview)
  next
    show "(stars_nonneg snap \<and> stamps_ok fi snap
        \<longrightarrow> (\<exists>rows. build_scores rr fi nw snap st = Inr rows))
      \<and> (\<exists>rows r.
           build_scores table_ratio iso_parser nw fallback_snapshot boosted_state = Inr rows
         \<and> map_of rows ''fileview'' = Some r
         \<and> 15 < ecosystem r \<and> ecosystem r = 16 \<and> 10 < momentum r \<and> momentum r = 11)"
      using build_scores_total [of snap fi rr nw st] c by blast
  qed
qed

theorem boosts_reach_all_dims_witness:
  "stars_nonneg pushed_snapshot \<and> stamps_ok iso_parser pushed_snapshot
   \<and> (\<exists>rows r.
           build_scores table_ratio iso_parser 0 pushed_snapshot boosted_state = Inr rows
         \<and> map_of rows ''fileview'' = Some r
         \<and> product r = 22 \<and> ai_fit r = 18 \<and> reliability r = 10
         \<and> ecosystem r = 1 + 15 \<and> momentum r = 10 + 10 \<and> total r = 86)"
proof -
  note inst = boosts_reach_all_dims [of table_ratio iso_parser 0 pushed_snapshot boosted_state]
  from inst [THEN conjunct2, THEN conjunct1] stars_nonneg_pushed stamps_ok_pushed
  obtain rows where f: "build_scores table_ratio iso_parser 0 pushed_snapshot boosted_state = Inr rows"
    by blast
  from inst [THEN conjunct1, rule_format, OF f] obtain r eco mom where g:
    "map_of rows ''fileview'' = Some r"
    "ecosystem_score table_ratio (stars_at (repos pushed_snapshot) ''fileview'')
       (max_stars_of (repos pushed_snapshot)) = Inr eco"
    "momentum_score iso_parser 0 (pushed_at_at (repos pushed_snapshot) ''fileview'') = Inr mom"
    "product r = 22 + boost_get (fileview_boost boosted_state) Product"
    "ai_fit r = 18 + boost_get (fileview_boost boosted_state) AiFit"
    "reliability r = 10 + boost_get (fileview_boost boosted_state) Reliability"
    "ecosystem r = eco + boost_get (fileview_boost boosted_state) Ecosystem"
    "momentum r = mom + boost_get (fileview_boost boosted_state) Momentum"
    "total r = product r + ai_fit r + reliability r + ecosystem r + momentum r"
    by blast
  from g(2) have eco: "eco = 1" by (simp add: eco_fileview_pushed)
  from g(3) have mom: "mom = 10"
    by (simp add: pushed_at_fileview_pushed momentum_score_def iso_parser_def
        momentum_steps_def days_since_def us_per_day_def)
  have b: "boost_get (fileview_boost boosted_state) Product = 0"
    "boost_get (fileview_boost boosted_state) AiFit = 0"
    "boost_get (fileview_boost boosted_state) Reliability = 0"
    "boost_get (fileview_boost boosted_state) Ecosystem = 15"
    "boost_get (fileview_boost boosted_state) Momentum = 10"
    by (simp_all add: boosted_state_def fresh_state_def boost_get_def)
  from g(4-9) have "product r = 22 \<and> ai_fit r = 18 \<and> reliability r = 10
         \<and> ecosystem r = 1 + 15 \<and> momentum r = 10 + 10 \<and> total r = 86"
    by (simp add: eco mom b)
  with f g(1) stars_nonneg_pushed stamps_ok_pushed show ?thesis by blast
qed

lemma momentum_cong:
  assumes "\<And>s t. p = Some s \<Longrightarrow> fi s = Some (Aware t) \<Longrightarrow> days_since n1 t = days_since n2 t"
  shows "momentum_score fi n1 p = momentum_score fi n2 p"
proof (cases p)
  case None
  then show ?thesis by (simp add: momentum_score_def)
next
  case (Some s)
  show ?thesis
  proof (cases "fi s")
    case None
    with Some show ?thesis by (simp add: momentum_score_def)
  next
    case fs: (Some d)
    show ?thesis
    proof (cases d)
      case (Naive t)
      with Some fs show ?thesis by (simp add: momentum_score_def)
    next
      case (Aware t)
      with Some fs assms [of s t] show ?thesis by (simp add: momentum_score_def)
    qed
  qed
qed

lemma score_rows_cong:
  assumes "\<And>key. key \<in> fst ` set bs \<Longrightarrow>
      momentum_score fi n1 (pushed_at_at rs key) = momentum_score fi n2 (pushed_at_at rs key)"
  shows "score_rows rr fi n1 rs m bs = score_rows rr fi n2 rs m bs"
  using assms
proof (induction bs)
  case Nil
  then show ?case by simp
next
  case (Cons kb bs)
  obtain key base where kb: "kb = (key, base)" by (cases kb)
  have h: "momentum_score fi n1 (pushed_at_at rs key) = momentum_score fi n2 (pushed_at_at rs key)"
    using Cons.prems [of key] by (simp add: kb)
  have t: "score_rows rr fi n1 rs m bs = score_rows rr fi n2 rs m bs"
    using Cons.IH Cons.prems by simp
  show ?case by (simp add: kb h t split: sum.split)
qed

text \<open>
  Claim C4, as amended. \<open>build_scores\<close> reads the clock: each momentum sub-score is
  measured from the last push to the time of the evaluation, and the snapshot's
  \<open>updated_at\<close> is never read. It is a function of the snapshot's records, the state
  and that clock reading: two evaluations agree, whatever \<open>updated_at\<close> says, when for
  every scored entity with a timestamp the count of whole days since the push is the same
  at both evaluation times.
\<close>

theorem build_scores_same_day_counts:
  assumes "\<forall>key \<in> set (map fst BASE_SCORES). \<forall>s p. pushed_at_at (repos snap) key = Some s
      \<longrightarrow> fi s = Some (Aware p) \<longrightarrow> days_since now1 p = days_since now2 p"
  shows "build_scores rr fi now1 (snap\<lparr>updated_at := t\<rparr>) st = build_scores rr fi now2 snap st"
proof -
  have "score_rows rr fi now1 (repos snap) (max_stars_of (repos snap)) BASE_SCORES
      = score_rows rr fi now2 (repos snap) (max_stars_of (repos snap)) BASE_SCORES"
  proof (rule score_rows_cong)
    fix key assume "key \<in> fst ` set BASE_SCORES"
    with assms have "\<And>s p. pushed_at_at (repos snap) key = Some s
        \<Longrightarrow> fi s = Some (Aware p) \<Longrightarrow> days_since now1 p = days_since now2 p" by auto
    then show "momentum_score fi now1 (pushed_at_at (repos snap) key)
        = momentum_score fi now2 (pushed_at_at (repos snap) key)" by (rule momentum_cong)
  qed
  then show ?thesis by (simp add: build_scores_def)
qed

theorem build_scores_same_day_counts_witness:
  "build_scores table_ratio iso_parser 0
       (pushed_snapshot\<lparr>updated_at := ''2026-02-02T00:00:00Z''\<rparr>) fresh_state
     = build_scores table_ratio iso_parser (us_per_day - 1) pushed_snapshot fresh_state"
proof -
  have "\<forall>key \<in> set (map fst BASE_SCORES). \<forall>s p. pushed_at_at (repos pushed_snapshot) key = Some s
      \<longrightarrow> iso_parser s = Some (Aware p) \<longrightarrow> days_since 0 p = days_since (us_per_day - 1) p"
    by (simp add: BASE_SCORES_def pushed_at_at_def pushed_snapshot_def FALLBACK_METRICS_def
        days_since_def us_per_day_def iso_parser_def)
  then show ?thesis by (rule build_scores_same_day_counts)
qed

text \<open>
  The claim as stated fails: one snapshot and one state, evaluated at the instant of the
  push and forty days later, give different tables (momentum 10 against 2).
\<close>

theorem build_scores_clock_counterexample:
  "build_scores table_ratio iso_parser 0 pushed_snapshot fresh_state
     \<noteq> build_scores table_ratio iso_parser (40 * us_per_day) pushed_snapshot fresh_state"
proof
  assume eq: "build_scores table_ratio iso_parser 0 pushed_snapshot fresh_state
     = build_scores table_ratio iso_parser (40 * us_per_day) pushed_snapshot fresh_state"
  obtain rows where a: "build_scores table_ratio iso_parser 0 pushed_snapshot fresh_state = Inr rows"
    using build_scores_total [OF stars_nonneg_pushed stamps_ok_pushed] by blast
  with eq have b: "build_scores table_ratio iso_parser (40 * us_per_day) pushed_snapshot fresh_state
      = Inr rows" by simp
  from build_scores_fileview [OF a] obtain r eco mom where ra:
    "map_of rows ''fileview'' = Some r"
    "momentum_score iso_parser 0 (pushed_at_at (repos pushed_snapshot) ''fileview'') = Inr mom"
    "momentum r = mom + boost_get (fileview_boost fresh_state) Momentum"
    by blast
  from build_scores_fileview [OF b] obtain r' eco' mom' where rb:
    "map_of rows ''fileview'' = Some r'"
    "momentum_score iso_parser (40 * us_per_day) (pushed_at_at (repos pushed_snapshot) ''fileview'')
       = Inr mom'"
    "momentum r' = mom' + boost_get (fileview_boost fresh_state) Momentum"
    by blast
  from ra(2) have "mom = 10"
    by (simp add: pushed_at_fileview_pushed momentum_score_def iso_parser_def
        momentum_steps_def days_since_def us_per_day_def)
  moreover from rb(2) have "mom' = 2"
    by (simp add: pushed_at_fileview_pushed momentum_score_def iso_parser_def
        momentum_steps_def days_since_def us_per_day_def)
  moreover from ra(1) rb(1) have "r = r'" by simp
  ultimately show False using ra(3) rb(3) by simp
qed

section \<open>Properties of the task queue executor\<close>


lemma first_todo_earlier:
  "first_todo q = Some i \<Longrightarrow> j < i \<Longrightarrow> \<not> is_todo (q ! j)"
proof (induction q arbitrary: i j)
  case Nil
  then show ?case by simp
next
  case (Cons t ts)
  show ?case
  proof (cases "is_todo t")
    case True
    with Cons.prems show ?thesis by simp
  next
    case False
    with Cons.prems obtain i' where i': "first_todo ts = Some i'" "i = Suc i'"
      by (auto split: option.splits)
    show ?thesis
    proof (cases j)
      case 0
      with False show ?thesis by simp
    next
      case (Suc j')
      with Cons.prems i' have "j' < i'" by simp
      with Cons.IH [OF i'(1)] Suc show ?thesis by simp
    qed
  qed
qed

lemma first_todo_None: "first_todo q = None \<Longrightarrow> t \<in> set q \<Longrightarrow> \<not> is_todo t"
  by (induction q) (auto split: if_splits option.splits)

lemma add_boosts_general:
  assumes "distinct ks" and "add_boosts sb tb ks = Inr b"
  shows "(\<forall>k \<in> set ks. \<exists>v. sb k = Some v \<and> b k = Some (v + boost_get tb k))
       \<and> (\<forall>k. k \<notin> set ks \<longrightarrow> b k = sb k)"
  using assms
proof (induction ks arbitrary: sb)
  case Nil
  then show ?case by simp
next
  case (Cons k ks)
  from Cons.prems(2) obtain v where v: "sb k = Some v"
    and rest: "add_boosts (sb(k \<mapsto> v + boost_get tb k)) tb ks = Inr b"
    by (auto split: option.splits)
  from Cons.prems(1) have d: "distinct ks" and nk: "k \<notin> set ks" by simp_all
  from Cons.IH [OF d rest] have
    inner: "\<And>k'. k' \<in> set ks \<Longrightarrow>
       \<exists>v'. (sb(k \<mapsto> v + boost_get tb k)) k' = Some v' \<and> b k' = Some (v' + boost_get tb k')"
    and outer: "\<And>k'. k' \<notin> set ks \<Longrightarrow> b k' = (sb(k \<mapsto> v + boost_get tb k)) k'"
    by blast+
  have "\<exists>v'. sb k' = Some v' \<and> b k' = Some (v' + boost_get tb k')" if "k' \<in> set (k # ks)" for k'
  proof (cases "k' = k")
    case True
    with outer [OF nk] v show ?thesis by simp
  next
    case False
    with that have "k' \<in> set ks" by simp
    from inner [OF this] False show ?thesis by simp
  qed
  moreover have "b k' = sb k'" if "k' \<notin> set (k # ks)" for k'
    using that outer [of k'] by simp
  ultimately show ?case by blast
qed

lemma set_dims: "set dims = UNIV"
proof -
  have "k \<in> set dims" for k by (cases k) (simp_all add: dims_def)
  then show ?thesis by blast
qed

lemma add_boosts_dims:
  assumes "add_boosts sb tb dims = Inr b"
  shows "\<exists>v. sb k = Some v \<and> b k = Some (v + boost_get tb k)"
proof -
  have "distinct dims" by (simp add: dims_def)
  from add_boosts_general [OF this assms] show ?thesis by (simp add: set_dims)
qed

lemma add_boosts_total:
  assumes "\<And>k. sb k \<noteq> None"
  shows "\<exists>b. add_boosts sb tb ks = Inr b"
  using assms
proof (induction ks arbitrary: sb)
  case Nil
  then show ?case by simp
next
  case (Cons k ks)
  from Cons.prems [of k] obtain v where v: "sb k = Some v" by auto
  have "\<exists>b. add_boosts (sb(k \<mapsto> v + boost_get tb k)) tb ks = Inr b"
  proof (rule Cons.IH)
    fix k' show "(sb(k \<mapsto> v + boost_get tb k)) k' \<noteq> None"
      using Cons.prems [of k'] by simp
  qed
  with v show ?case by simp
qed




lemma run_task_cases:
  assumes r: "run_task e i cmd queue st w = Inr (out, queue', st', w')"
  shows "(out = Failed \<and> st' = st
          \<and> queue' = queue[i := (queue ! i)\<lparr>status := Some ''failed'',
                result := Some (last_800 (snd (shell e cmd)))\<rparr>]
          \<and> w' = w\<lparr>shell_log := shell_log w @ [cmd], queue_file := Some queue'\<rparr>)
       \<or> (\<exists>b. out = Done
          \<and> add_boosts (fileview_boost st) (boost (queue ! i)) dims = Inr b
          \<and> st' = st\<lparr>fileview_boost := b,
                      completed_tasks := completed_tasks st @ [task_id (queue ! i)]\<rparr>
          \<and> queue' = queue[i := (queue ! i)\<lparr>status := Some ''done'',
                completed_at := Some (utcnow_iso e At_completion)\<rparr>]
          \<and> w' = w\<lparr>shell_log := shell_log w @ [cmd], queue_file := Some queue'\<rparr>)"
proof -
  obtain rc err where sh: "shell e cmd = (rc, err)" by (cases "shell e cmd")
  show ?thesis
  proof (cases "rc = 0")
    case False
    define qf where "qf = queue[i := (queue ! i)\<lparr>status := Some ''failed'',
                result := Some (last_800 err)\<rparr>]"
    have v: "run_task e i cmd queue st w =
      Inr (Failed, qf, st, w\<lparr>shell_log := shell_log w @ [cmd], queue_file := Some qf\<rparr>)"
      using sh False by (simp add: run_task_def Let_def qf_def)
    from r [unfolded v] have "out = Failed" and "queue' = qf" and "st' = st"
      and "w' = w\<lparr>shell_log := shell_log w @ [cmd], queue_file := Some qf\<rparr>"
      by blast+
    then show ?thesis using sh by (simp add: qf_def)
  next
    case True
    show ?thesis
    proof (cases "add_boosts (fileview_boost st) (boost (queue ! i)) dims")
      case (Inl x)
      with sh True have "run_task e i cmd queue st w = Inl x"
        by (simp add: run_task_def Let_def)
      with r show ?thesis by simp
    next
      case (Inr b)
      define qd where "qd = queue[i := (queue ! i)\<lparr>status := Some ''done'',
                completed_at := Some (utcnow_iso e At_completion)\<rparr>]"
      have v: "run_task e i cmd queue st w =
        Inr (Done, qd,
          st\<lparr>fileview_boost := b, completed_tasks := completed_tasks st @ [task_id (queue ! i)]\<rparr>,
          w\<lparr>shell_log := shell_log w @ [cmd], queue_file := Some qd\<rparr>)"
        using sh True Inr by (simp add: run_task_def Let_def qd_def)
      from r [unfolded v] have "out = Done" and "queue' = qd"
        and "st' = st\<lparr>fileview_boost := b,
               completed_tasks := completed_tasks st @ [task_id (queue ! i)]\<rparr>"
        and "w' = w\<lparr>shell_log := shell_log w @ [cmd], queue_file := Some qd\<rparr>"
        by blast+
      then show ?thesis using Inr by (simp add: qd_def)
    qed
  qed
qed









section \<open>Properties of the metrics snapshot fetcher\<close>

lemma resolve_metrics_value:
  assumes "map_of FALLBACK_METRICS key = Some fb"
  shows "resolve_metrics e previous key repo =
    Inr (case fetch_repo e repo of
           Some d \<Rightarrow> d
         | None \<Rightarrow> (case map_of previous key of Some d \<Rightarrow> d | None \<Rightarrow> fb))"
  using assms by (simp add: resolve_metrics_def split: option.split)

lemma resolve_all_total:
  assumes "\<And>k r. (k, r) \<in> set rs \<Longrightarrow> \<exists>d. resolve_metrics e previous k r = Inr d"
  shows "\<exists>xs. resolve_all e previous rs = Inr xs"
  using assms
proof (induction rs)
  case Nil
  then show ?case by simp
next
  case (Cons kr rs)
  obtain k r where kr: "kr = (k, r)" by (cases kr)
  from Cons.prems [of k r] kr obtain d where d: "resolve_metrics e previous k r = Inr d"
    by auto
  have "\<exists>xs. resolve_all e previous rs = Inr xs"
  proof (rule Cons.IH)
    fix k' r' assume "(k', r') \<in> set rs"
    then show "\<exists>d. resolve_metrics e previous k' r' = Inr d" using Cons.prems [of k' r'] by simp
  qed
  then obtain xs where "resolve_all e previous rs = Inr xs" ..
  with d kr show ?case by simp
qed

lemma resolve_all_lookup:
  assumes "resolve_all e previous rs = Inr xs" and "distinct (map fst rs)"
    and "(key, repo) \<in> set rs"
  shows "\<exists>d. resolve_metrics e previous key repo = Inr d \<and> map_of xs key = Some d"
  using assms
proof (induction rs arbitrary: xs)
  case Nil
  then show ?case by simp
next
  case (Cons kr rs)
  obtain k r where kr: "kr = (k, r)" by (cases kr)
  from Cons.prems(1) kr obtain d ys where d: "resolve_metrics e previous k r = Inr d"
    and ys: "resolve_all e previous rs = Inr ys" and xs: "xs = (k, d) # ys"
    by (auto split: sum.splits)
  from Cons.prems(2) kr have dist: "distinct (map fst rs)" and nk: "k \<notin> fst ` set rs" by simp_all
  show ?case
  proof (cases "(key, repo) = (k, r)")
    case True
    with d xs show ?thesis by simp
  next
    case False
    with Cons.prems(3) kr have mem: "(key, repo) \<in> set rs" by auto
    then have "key \<in> fst ` set rs" by force
    with nk have "key \<noteq> k" by blast
    with Cons.IH [OF ys dist mem] xs show ?thesis by simp
  qed
qed

lemma fallback_has_repo_keys:
  assumes "(key, repo) \<in> set REPOS"
  shows "\<exists>fb. map_of FALLBACK_METRICS key = Some fb"
proof -
  from assms have "key = ''fileview'' \<or> key = ''yazi'' \<or> key = ''lf'' \<or> key = ''nnn''
      \<or> key = ''ranger''"
    by (simp add: REPOS_def) blast
  then show ?thesis
    by (elim disjE) (simp_all add: FALLBACK_METRICS_def)
qed

lemma live_link:
  "fetch_repo e repo =
    (case gh_api e repo 0 of
       Some d \<Rightarrow> Some d
     | None \<Rightarrow> (case gh_api e repo 1 of Some d \<Rightarrow> Some d | None \<Rightarrow> gh_api e repo 2))"
  by (simp add: fetch_repo_def split: option.split)

text \<open>
  Claim C8. For every entity of \<open>REPOS\<close>, \<open>fetch_market_snapshot\<close> returns and saves
  a snapshot whose record for the entity is the live fetch result, the answer of the
  first of the three \<^verbatim>\<open>gh\<close> attempts that succeeds, when there is one; else the record of
  the prior snapshot file when it has one for the entity; else the entity's entry of
  \<open>FALLBACK_METRICS\<close>, which always exists. So when the live fetch fails and no prior
  record exists the record equals the static default.
\<close>

theorem fallback_chain:
  assumes "(key, repo) \<in> set REPOS"
  shows "\<exists>snap w' fb.
        fetch_market_snapshot e w = Inr (snap, w')
      \<and> snapshot_file w' = Some snap
      \<and> map_of FALLBACK_METRICS key = Some fb
      \<and> map_of (repos snap) key =
          Some (case fetch_repo e repo of
                  Some d \<Rightarrow> d
                | None \<Rightarrow>
                    (case map_of (case snapshot_file w of None \<Rightarrow> [] | Some p \<Rightarrow> repos p) key of
                       Some d \<Rightarrow> d
                     | None \<Rightarrow> fb))
      \<and> fetch_repo e repo =
          (case gh_api e repo 0 of
             Some d \<Rightarrow> Some d
           | None \<Rightarrow> (case gh_api e repo 1 of Some d \<Rightarrow> Some d | None \<Rightarrow> gh_api e repo 2))"
proof -
  let ?prev = "case snapshot_file w of None \<Rightarrow> [] | Some p \<Rightarrow> repos p"
  have tot: "\<exists>d. resolve_metrics e ?prev k r = Inr d" if "(k, r) \<in> set REPOS" for k r
  proof -
    from fallback_has_repo_keys [OF that] obtain fb where "map_of FALLBACK_METRICS k = Some fb" ..
    from resolve_metrics_value [OF this] show ?thesis by blast
  qed
  from resolve_all_total [of REPOS e ?prev] tot
  obtain xs where xs: "resolve_all e ?prev REPOS = Inr xs" by blast
  have dist: "distinct (map fst REPOS)" by (simp add: REPOS_def)
  from resolve_all_lookup [OF xs dist assms]
  obtain d where d: "resolve_metrics e ?prev key repo = Inr d" and m: "map_of xs key = Some d"
    by blast
  from fallback_has_repo_keys [OF assms] obtain fb where fb: "map_of FALLBACK_METRICS key = Some fb" ..
  from d resolve_metrics_value [OF fb, of e ?prev repo]
  have dv: "d = (case fetch_repo e repo of Some d \<Rightarrow> d
         | None \<Rightarrow> (case map_of ?prev key of Some d \<Rightarrow> d | None \<Rightarrow> fb))"
    by simp
  let ?snap = "\<lparr>updated_at = utcnow_iso e At_fetch, repos = xs\<rparr>"
  have f: "fetch_market_snapshot e w = Inr (?snap, w\<lparr>snapshot_file := Some ?snap\<rparr>)"
    using xs by (simp add: fetch_market_snapshot_def Let_def)
  have s: "snapshot_file (w\<lparr>snapshot_file := Some ?snap\<rparr>) = Some ?snap" by simp
  have mm: "map_of (repos ?snap) key = Some (case fetch_repo e repo of Some d \<Rightarrow> d
         | None \<Rightarrow> (case map_of ?prev key of Some d \<Rightarrow> d | None \<Rightarrow> fb))"
    using m dv by simp
  have "fetch_market_snapshot e w = Inr (?snap, w\<lparr>snapshot_file := Some ?snap\<rparr>)
      \<and> snapshot_file (w\<lparr>snapshot_file := Some ?snap\<rparr>) = Some ?snap
      \<and> map_of FALLBACK_METRICS key = Some fb
      \<and> map_of (repos ?snap) key = Some (case fetch_repo e repo of Some d \<Rightarrow> d
         | None \<Rightarrow> (case map_of ?prev key of Some d \<Rightarrow> d | None \<Rightarrow> fb))
      \<and> fetch_repo e repo =
          (case gh_api e repo 0 of
             Some d \<Rightarrow> Some d
           | None \<Rightarrow> (case gh_api e repo 1 of Some d \<Rightarrow> Some d | None \<Rightarrow> gh_api e repo 2))"
    by (intro conjI) (rule f, rule s, rule fb, rule mm, rule live_link)
  then show ?thesis by - (rule exI, rule exI, rule exI, assumption)
qed

text \<open>
  The three links at work: with the second \<^verbatim>\<open>gh\<close> attempt for \<^verbatim>\<open>jarun/nnn\<close> succeeding and
  a prior snapshot on file, the entity \<^verbatim>\<open>nnn\<close> gets the live record and \<^verbatim>\<open>fileview\<close> the
  prior one; with no attempt succeeding and no snapshot on file, \<^verbatim>\<open>nnn\<close> gets the static
  default.
\<close>

theorem fallback_chain_witness:
  "(''nnn'', ''jarun/nnn'') \<in> set REPOS \<and> (''fileview'', ''Hiro-Chiba/fileview'') \<in> set REPOS
   \<and> (\<exists>snap w'.
        fetch_market_snapshot flaky_env prior_world = Inr (snap, w')
      \<and> snapshot_file w' = Some snap
      \<and> fetch_repo flaky_env ''jarun/nnn'' = Some live_nnn
      \<and> map_of (repos snap) ''nnn'' = Some live_nnn
      \<and> fetch_repo flaky_env ''Hiro-Chiba/fileview'' = None
      \<and> map_of (repos snap) ''fileview'' =
          Some \<lparr>stargazers_count = 0, forks_count = 0, open_issues_count = 0,
                pushed_at = Some ''2026-01-01T00:00:00Z''\<rparr>)
   \<and> (\<exists>snap w'.
        fetch_market_snapshot quiet_env empty_world = Inr (snap, w')
      \<and> snapshot_file w' = Some snap
      \<and> fetch_repo quiet_env ''jarun/nnn'' = None
      \<and> map_of (repos snap) ''nnn'' =
          Some \<lparr>stargazers_count = 21191, forks_count = 798, open_issues_count = 2,
                pushed_at = None\<rparr>)"
proof -
  have mem: "(''nnn'', ''jarun/nnn'') \<in> set REPOS" by (simp add: REPOS_def)
  have mem2: "(''fileview'', ''Hiro-Chiba/fileview'') \<in> set REPOS" by (simp add: REPOS_def)
  have gq: "gh_api quiet_env = no_network" by (simp add: quiet_env_def)
  have gf: "gh_api flaky_env = flaky_network" by (simp add: flaky_env_def)
  from fallback_chain [OF mem, of flaky_env prior_world]
  obtain snap w' fb where f: "fetch_market_snapshot flaky_env prior_world = Inr (snap, w')"
    and sf: "snapshot_file w' = Some snap"
    and m: "map_of (repos snap) ''nnn'' =
          Some (case fetch_repo flaky_env ''jarun/nnn'' of
                  Some d \<Rightarrow> d
                | None \<Rightarrow>
                    (case map_of (case snapshot_file prior_world of None \<Rightarrow> []
                                  | Some p \<Rightarrow> repos p) ''nnn'' of
                       Some d \<Rightarrow> d
                     | None \<Rightarrow> fb))"
    and l: "fetch_repo flaky_env ''jarun/nnn'' =
          (case gh_api flaky_env ''jarun/nnn'' 0 of
             Some d \<Rightarrow> Some d
           | None \<Rightarrow> (case gh_api flaky_env ''jarun/nnn'' 1 of Some d \<Rightarrow> Some d
                       | None \<Rightarrow> gh_api flaky_env ''jarun/nnn'' 2))"
    by blast
  from l have live: "fetch_repo flaky_env ''jarun/nnn'' = Some live_nnn"
    by (simp add: gf flaky_network_def)
  with m have m1: "map_of (repos snap) ''nnn'' = Some live_nnn" by simp
  from fallback_chain [OF mem2, of flaky_env prior_world] f
  obtain fb2 where m2: "map_of (repos snap) ''fileview'' =
          Some (case fetch_repo flaky_env ''Hiro-Chiba/fileview'' of
                  Some d \<Rightarrow> d
                | None \<Rightarrow>
                    (case map_of (case snapshot_file prior_world of None \<Rightarrow> []
                                  | Some p \<Rightarrow> repos p) ''fileview'' of
                       Some d \<Rightarrow> d
                     | None \<Rightarrow> fb2))"
    and l2: "fetch_repo flaky_env ''Hiro-Chiba/fileview'' =
          (case gh_api flaky_env ''Hiro-Chiba/fileview'' 0 of
             Some d \<Rightarrow> Some d
           | None \<Rightarrow> (case gh_api flaky_env ''Hiro-Chiba/fileview'' 1 of Some d \<Rightarrow> Some d
                       | None \<Rightarrow> gh_api flaky_env ''Hiro-Chiba/fileview'' 2))"
    by auto
  from l2 have dead: "fetch_repo flaky_env ''Hiro-Chiba/fileview'' = None"
    by (simp add: gf flaky_network_def)
  with m2 have m3: "map_of (repos snap) ''fileview'' =
          Some \<lparr>stargazers_count = 0, forks_count = 0, open_issues_count = 0,
                pushed_at = Some ''2026-01-01T00:00:00Z''\<rparr>"
    by (simp add: prior_world_def empty_world_def pushed_snapshot_def FALLBACK_METRICS_def)
  from f sf live m1 dead m3 have first: "\<exists>snap w'.
        fetch_market_snapshot flaky_env prior_world = Inr (snap, w')
      \<and> snapshot_file w' = Some snap
      \<and> fetch_repo flaky_env ''jarun/nnn'' = Some live_nnn
      \<and> map_of (repos snap) ''nnn'' = Some live_nnn
      \<and> fetch_repo flaky_env ''Hiro-Chiba/fileview'' = None
      \<and> map_of (repos snap) ''fileview'' =
          Some \<lparr>stargazers_count = 0, forks_count = 0, open_issues_count = 0,
                pushed_at = Some ''2026-01-01T00:00:00Z''\<rparr>"
    by blast
  from fallback_chain [OF mem, of quiet_env empty_world]
  obtain snap3 w3 fb3 where f3: "fetch_market_snapshot quiet_env empty_world = Inr (snap3, w3)"
    and sf3: "snapshot_file w3 = Some snap3"
    and fb3: "map_of FALLBACK_METRICS ''nnn'' = Some fb3"
    and m4: "map_of (repos snap3) ''nnn'' =
          Some (case fetch_repo quiet_env ''jarun/nnn'' of
                  Some d \<Rightarrow> d
                | None \<Rightarrow>
                    (case map_of (case snapshot_file empty_world of None \<Rightarrow> []
                                  | Some p \<Rightarrow> repos p) ''nnn'' of
                       Some d \<Rightarrow> d
                     | None \<Rightarrow> fb3))"
    and l3: "fetch_repo quiet_env ''jarun/nnn'' =
          (case gh_api quiet_env ''jarun/nnn'' 0 of
             Some d \<Rightarrow> Some d
           | None \<Rightarrow> (case gh_api quiet_env ''jarun/nnn'' 1 of Some d \<Rightarrow> Some d
                       | None \<Rightarrow> gh_api quiet_env ''jarun/nnn'' 2))"
    by blast
  from l3 have quiet: "fetch_repo quiet_env ''jarun/nnn'' = None"
    by (simp add: gq no_network_def)
  from fb3 have "fb3 = \<lparr>stargazers_count = 21191, forks_count = 798, open_issues_count = 2,
                pushed_at = None\<rparr>"
    by (simp add: FALLBACK_METRICS_def)
  with m4 quiet have "map_of (repos snap3) ''nnn'' =
          Some \<lparr>stargazers_count = 21191, forks_count = 798, open_issues_count = 2,
                pushed_at = None\<rparr>"
    by (simp add: empty_world_def)
  with f3 sf3 quiet have second: "\<exists>snap w'.
        fetch_market_snapshot quiet_env empty_world = Inr (snap, w')
      \<and> snapshot_file w' = Some snap
      \<and> fetch_repo quiet_env ''jarun/nnn'' = None
      \<and> map_of (repos snap) ''nnn'' =
          Some \<lparr>stargazers_count = 21191, forks_count = 798, open_issues_count = 2,
                pushed_at = None\<rparr>"
    by blast
  from mem mem2 first second show ?thesis by (intro conjI)
qed

section \<open>Properties of the cycle controller\<close>

lemma add_boosts_Some:
  "add_boosts (\<lambda>k. Some (f k)) tb dims = Inr (\<lambda>k. Some (f k + boost_get tb k))"
proof -
  obtain b where b: "add_boosts (\<lambda>k. Some (f k)) tb dims = Inr b"
    using add_boosts_total [of "\<lambda>k. Some (f k)" tb dims] by auto
  have "b k = Some (f k + boost_get tb k)" for k
    using add_boosts_dims [OF b, of k] by simp
  then have "b = (\<lambda>k. Some (f k + boost_get tb k))" by (rule ext)
  with b show ?thesis by simp
qed

lemma execute_task_done:
  assumes "first_todo q = Some i" and "\<not> is_major (q ! i)"
    and "command (q ! i) = Some cmd" and "cmd \<noteq> []" and "shell e cmd = (0, err)"
    and "add_boosts (fileview_boost st) (boost (q ! i)) dims = Inr b"
  shows "execute_task e q st w =
    Inr (Done,
         q[i := (q ! i)\<lparr>status := Some ''done'',
                         completed_at := Some (utcnow_iso e At_completion)\<rparr>],
         st\<lparr>fileview_boost := b, completed_tasks := completed_tasks st @ [task_id (q ! i)]\<rparr>,
         w\<lparr>shell_log := shell_log w @ [cmd],
           queue_file := Some (q[i := (q ! i)\<lparr>status := Some ''done'',
                         completed_at := Some (utcnow_iso e At_completion)\<rparr>])\<rparr>)"
  using assms by (simp add: execute_task_def run_task_def Let_def)

lemma execute_task_major:
  assumes "first_todo q = Some i" and "is_major (q ! i)"
  shows "execute_task e q st w = Inr (Major, q, st, write_escalation e (q ! i) w)"
  using assms by (simp add: execute_task_def)

lemma execute_task_state:
  assumes x: "execute_task e queue st w = Inr (out, queue', st', w')"
  shows "state_file w' = state_file w
      \<and> no_delta_cycles st' = no_delta_cycles st
      \<and> last_total st' = last_total st
      \<and> (out \<noteq> Done \<longrightarrow> st' = st)
      \<and> (out = Done \<longrightarrow>
           (\<exists>i. first_todo queue = Some i
              \<and> (\<forall>k. \<exists>v. fileview_boost st k = Some v
                    \<and> fileview_boost st' k = Some (v + boost_get (boost (queue ! i)) k))))"
proof (cases "first_todo queue")
  case None
  then have v: "execute_task e queue st w = Inr (No_task, queue, st, w)"
    by (simp add: execute_task_def)
  from x [unfolded v] have "out = No_task" "st' = st" "w' = w" by blast+
  then show ?thesis by simp
next
  case (Some i)
  show ?thesis
  proof (cases "is_major (queue ! i)")
    case True
    from x [unfolded execute_task_major [OF Some True]]
    have "out = Major" "st' = st" "w' = write_escalation e (queue ! i) w" by blast+
    then show ?thesis by (simp add: write_escalation_def)
  next
    case False
    note nm = this
    show ?thesis
    proof (cases "command (queue ! i) = None \<or> command (queue ! i) = Some []")
      case True
      with Some nm have v: "execute_task e queue st w =
        Inr (Blocked,
             queue[i := (queue ! i)\<lparr>status := Some ''blocked'', result := Some ''missing command''\<rparr>],
             st,
             w\<lparr>queue_file := Some (queue[i := (queue ! i)\<lparr>status := Some ''blocked'',
                  result := Some ''missing command''\<rparr>])\<rparr>)"
        by (auto simp add: execute_task_def block_task_def Let_def)
      from x [unfolded v] have "out = Blocked" "st' = st"
        "w' = w\<lparr>queue_file := Some (queue[i := (queue ! i)\<lparr>status := Some ''blocked'',
                  result := Some ''missing command''\<rparr>])\<rparr>"
        by blast+
      then show ?thesis by simp
    next
      case False
      then obtain cmd where cmd: "command (queue ! i) = Some cmd" "cmd \<noteq> []" by auto
      with x Some nm have r: "run_task e i cmd queue st w = Inr (out, queue', st', w')"
        by (simp add: execute_task_def)
      from run_task_cases [OF r] show ?thesis
      proof
        assume "out = Failed \<and> st' = st
          \<and> queue' = queue[i := (queue ! i)\<lparr>status := Some ''failed'',
                result := Some (last_800 (snd (shell e cmd)))\<rparr>]
          \<and> w' = w\<lparr>shell_log := shell_log w @ [cmd], queue_file := Some queue'\<rparr>"
        then have "out = Failed" "st' = st"
          "w' = w\<lparr>shell_log := shell_log w @ [cmd], queue_file := Some queue'\<rparr>"
          by blast+
        then show ?thesis by simp
      next
        assume "\<exists>b. out = Done
          \<and> add_boosts (fileview_boost st) (boost (queue ! i)) dims = Inr b
          \<and> st' = st\<lparr>fileview_boost := b,
                      completed_tasks := completed_tasks st @ [task_id (queue ! i)]\<rparr>
          \<and> queue' = queue[i := (queue ! i)\<lparr>status := Some ''done'',
                completed_at := Some (utcnow_iso e At_completion)\<rparr>]
          \<and> w' = w\<lparr>shell_log := shell_log w @ [cmd], queue_file := Some queue'\<rparr>"
        then obtain b where o: "out = Done"
          and b: "add_boosts (fileview_boost st) (boost (queue ! i)) dims = Inr b"
          and s: "st' = st\<lparr>fileview_boost := b,
                      completed_tasks := completed_tasks st @ [task_id (queue ! i)]\<rparr>"
          and ww: "w' = w\<lparr>shell_log := shell_log w @ [cmd], queue_file := Some queue'\<rparr>"
          by blast
        have "\<forall>k. \<exists>v. fileview_boost st k = Some v
              \<and> fileview_boost st' k = Some (v + boost_get (boost (queue ! i)) k)"
          using add_boosts_dims [OF b] s by simp
        with Some have "\<exists>i. first_todo queue = Some i
              \<and> (\<forall>k. \<exists>v. fileview_boost st k = Some v
                    \<and> fileview_boost st' k = Some (v + boost_get (boost (queue ! i)) k))"
          by blast
        then show ?thesis using o s ww by simp
      qed
    qed
  qed
qed

lemma run_cycle_core:
  assumes "branch e = ''develop''"
    and "fetch_market_snapshot e w = Inr (snap, w1)"
    and "execute_task e (load_queue w) (load_state w) w1 = Inr (out, q', st1, w2)"
    and "build_scores (round_ratio e) (fromiso e) (now e) snap st1 = Inr rows"
    and "map_of rows ''fileview'' = Some row"
    and "a = total row"
    and "d = cycle_delta (before_total (load_state w)) a"
    and "n = next_no_delta out d (no_delta_cycles st1)"
  shows "run_cycle e w =
    Inr (\<lparr>rep_task_result = out, rep_after = a, rep_delta = d, rep_code = decision out n\<rparr>,
         w2\<lparr>state_file := Some (st1\<lparr>no_delta_cycles := n, last_total := Some a,
                last_task_result := Some out,
                last_cycle_at := Some (utcnow_iso e At_cycle_end)\<rparr>)\<rparr>)"
  using assms by (simp add: run_cycle_def Let_def)

lemma run_cycle_elim:
  assumes r: "run_cycle e w = Inr (rep, w')"
  shows "\<exists>snap w1 out q' st1 w2 rows row.
       branch e = ''develop''
     \<and> fetch_market_snapshot e w = Inr (snap, w1)
     \<and> execute_task e (load_queue w) (load_state w) w1 = Inr (out, q', st1, w2)
     \<and> build_scores (round_ratio e) (fromiso e) (now e) snap st1 = Inr rows
     \<and> map_of rows ''fileview'' = Some row
     \<and> rep = \<lparr>rep_task_result = out, rep_after = total row,
              rep_delta = cycle_delta (before_total (load_state w)) (total row),
              rep_code = decision out
                (next_no_delta out (cycle_delta (before_total (load_state w)) (total row))
                   (no_delta_cycles st1))\<rparr>
     \<and> w' = w2\<lparr>state_file := Some (st1\<lparr>
              no_delta_cycles :=
                next_no_delta out (cycle_delta (before_total (load_state w)) (total row))
                   (no_delta_cycles st1),
              last_total := Some (total row),
              last_task_result := Some out,
              last_cycle_at := Some (utcnow_iso e At_cycle_end)\<rparr>)\<rparr>"
proof -
  have br: "branch e = ''develop''"
  proof (rule ccontr)
    assume "branch e \<noteq> ''develop''"
    then have "run_cycle e w = Inl (SystemExit 2)" by (simp add: run_cycle_def)
    with r show False by simp
  qed
  obtain snap w1 where f: "fetch_market_snapshot e w = Inr (snap, w1)"
  proof (cases "fetch_market_snapshot e w")
    case (Inl err)
    with br have "run_cycle e w = Inl err" by (simp add: run_cycle_def Let_def)
    with r show ?thesis by simp
  next
    case (Inr p)
    then show ?thesis using that by (cases p) simp
  qed
  obtain out q' st1 w2 where
    x: "execute_task e (load_queue w) (load_state w) w1 = Inr (out, q', st1, w2)"
  proof (cases "execute_task e (load_queue w) (load_state w) w1")
    case (Inl err)
    with br f have "run_cycle e w = Inl err" by (simp add: run_cycle_def Let_def)
    with r show ?thesis by simp
  next
    case (Inr p)
    then show ?thesis using that by (cases p) simp
  qed
  obtain rows where b: "build_scores (round_ratio e) (fromiso e) (now e) snap st1 = Inr rows"
  proof (cases "build_scores (round_ratio e) (fromiso e) (now e) snap st1")
    case (Inl err)
    with br f x have "run_cycle e w = Inl err" by (simp add: run_cycle_def Let_def)
    with r show ?thesis by simp
  next
    case (Inr p)
    then show ?thesis using that by simp
  qed
  obtain row where m: "map_of rows ''fileview'' = Some row"
  proof (cases "map_of rows ''fileview''")
    case None
    with br f x b have "run_cycle e w = Inl KeyError" by (simp add: run_cycle_def Let_def)
    with r show ?thesis by simp
  next
    case (Some p)
    then show ?thesis using that by simp
  qed
  note v = run_cycle_core [OF br f x b m refl refl refl]
  from r [unfolded v]
  have "rep = \<lparr>rep_task_result = out, rep_after = total row,
              rep_delta = cycle_delta (before_total (load_state w)) (total row),
              rep_code = decision out
                (next_no_delta out (cycle_delta (before_total (load_state w)) (total row))
                   (no_delta_cycles st1))\<rparr>"
    and "w' = w2\<lparr>state_file := Some (st1\<lparr>
              no_delta_cycles :=
                next_no_delta out (cycle_delta (before_total (load_state w)) (total row))
                   (no_delta_cycles st1),
              last_total := Some (total row),
              last_task_result := Some out,
              last_cycle_at := Some (utcnow_iso e At_cycle_end)\<rparr>)\<rparr>"
    by blast+
  with br f x b m show ?thesis by blast
qed

lemma fetch_quiet:
  assumes "snapshot_file w = None \<or> snapshot_file w = Some fallback_snapshot"
  shows "fetch_market_snapshot quiet_env w =
    Inr (fallback_snapshot, w\<lparr>snapshot_file := Some fallback_snapshot\<rparr>)"
proof -
  let ?prev = "case snapshot_file w of None \<Rightarrow> [] | Some p \<Rightarrow> repos p"
  have fr: "fetch_repo quiet_env repo = None" for repo
    by (simp add: fetch_repo_def quiet_env_def no_network_def)
  have rm: "resolve_metrics quiet_env ?prev key repo = Inr fb"
    if "map_of FALLBACK_METRICS key = Some fb" for key repo fb
  proof -
    from assms have "map_of ?prev key = None \<or> map_of ?prev key = Some fb"
      using that by (auto simp add: fallback_snapshot_def)
    then show ?thesis using that fr by (auto simp add: resolve_metrics_def)
  qed
  have "resolve_all quiet_env ?prev REPOS = Inr FALLBACK_METRICS"
    unfolding REPOS_def
    by (simp add: rm FALLBACK_METRICS_def)
  then show ?thesis
    by (simp add: fetch_market_snapshot_def Let_def fallback_snapshot_def quiet_env_def
        fixed_clock_def)
qed

lemma build_scores_fallback_total:
  "\<exists>rows row. build_scores table_ratio fi nw fallback_snapshot st = Inr rows
     \<and> map_of rows ''fileview'' = Some row \<and> total row = boosted_total st"
proof -
  obtain rows where f: "build_scores table_ratio fi nw fallback_snapshot st = Inr rows"
    using build_scores_total [OF stars_nonneg_fallback stamps_ok_fallback] by blast
  from build_scores_fileview [OF f] obtain r eco mom where g:
    "map_of rows ''fileview'' = Some r"
    "ecosystem_score table_ratio (stars_at (repos fallback_snapshot) ''fileview'')
       (max_stars_of (repos fallback_snapshot)) = Inr eco"
    "momentum_score fi nw (pushed_at_at (repos fallback_snapshot) ''fileview'') = Inr mom"
    "product r = 22 + boost_get (fileview_boost st) Product"
    "ai_fit r = 18 + boost_get (fileview_boost st) AiFit"
    "reliability r = 10 + boost_get (fileview_boost st) Reliability"
    "ecosystem r = eco + boost_get (fileview_boost st) Ecosystem"
    "momentum r = mom + boost_get (fileview_boost st) Momentum"
    "total r = product r + ai_fit r + reliability r + ecosystem r + momentum r"
    by blast
  from g(2) have "eco = 1" by (simp add: eco_fileview_fallback)
  moreover from g(3) have "mom = 1"
    by (simp add: pushed_at_fileview_fallback momentum_score_def)
  ultimately have "total r = boosted_total st"
    using g(4-9) by (simp add: boosted_total_def)
  with f g(1) show ?thesis by blast
qed

lemma run_cycle_quiet:
  assumes s: "snapshot_file w = None \<or> snapshot_file w = Some fallback_snapshot"
    and x: "execute_task quiet_env (load_queue w) (load_state w)
              (w\<lparr>snapshot_file := Some fallback_snapshot\<rparr>) = Inr (out, q', st1, w2)"
    and a: "a = boosted_total st1"
    and d: "d = cycle_delta (before_total (load_state w)) a"
    and n: "n = next_no_delta out d (no_delta_cycles st1)"
  shows "run_cycle quiet_env w =
    Inr (\<lparr>rep_task_result = out, rep_after = a, rep_delta = d, rep_code = decision out n\<rparr>,
         w2\<lparr>state_file := Some (st1\<lparr>no_delta_cycles := n, last_total := Some a,
                last_task_result := Some out,
                last_cycle_at := Some ''2026-01-01T00:00:00Z''\<rparr>)\<rparr>)"
proof -
  have rr: "round_ratio quiet_env = table_ratio" by (simp add: quiet_env_def)
  obtain rows row where
    b0: "build_scores table_ratio (fromiso quiet_env) (now quiet_env) fallback_snapshot st1 = Inr rows"
    and m: "map_of rows ''fileview'' = Some row" and t: "total row = boosted_total st1"
    using build_scores_fallback_total by blast
  have b: "build_scores (round_ratio quiet_env) (fromiso quiet_env) (now quiet_env)
      fallback_snapshot st1 = Inr rows"
    unfolding rr by (rule b0)
  have br: "branch quiet_env = ''develop''" by (simp add: quiet_env_def)
  have c: "utcnow_iso quiet_env At_cycle_end = ''2026-01-01T00:00:00Z''"
    by (simp add: quiet_env_def fixed_clock_def)
  from a t have a': "a = total row" by simp
  from run_cycle_core [OF br fetch_quiet [OF s] x b m a' d n] show ?thesis
    unfolding c .
qed

lemma quiet_done_cycle:
  assumes s: "snapshot_file w = None \<or> snapshot_file w = Some fallback_snapshot"
    and ft: "first_todo (load_queue w) = Some i"
    and t: "load_queue w ! i = tk"
    and nm: "kind tk = Some ''normal''"
    and cmd: "command tk = Some ''true''"
    and fb: "fileview_boost (load_state w) = (\<lambda>k. Some (f k))"
    and b': "b' = (\<lambda>k. Some (f k + boost_get (boost tk) k))"
    and q': "q' = (load_queue w)[i := tk\<lparr>status := Some ''done'',
                     completed_at := Some ''2026-01-01T00:00:00Z''\<rparr>]"
    and a: "a = 52 + (f Product + boost_get (boost tk) Product)
                  + (f AiFit + boost_get (boost tk) AiFit)
                  + (f Reliability + boost_get (boost tk) Reliability)
                  + (f Ecosystem + boost_get (boost tk) Ecosystem)
                  + (f Momentum + boost_get (boost tk) Momentum)"
    and d: "d = cycle_delta (before_total (load_state w)) a"
    and n: "n = next_no_delta Done d (no_delta_cycles (load_state w))"
  shows "run_cycle quiet_env w =
    Inr (\<lparr>rep_task_result = Done, rep_after = a, rep_delta = d, rep_code = decision Done n\<rparr>,
         \<lparr>state_file = Some
            \<lparr>fileview_boost = b', last_total = Some a, no_delta_cycles = n,
             completed_tasks = completed_tasks (load_state w) @ [task_id tk],
             last_task_result = Some Done, last_cycle_at = Some ''2026-01-01T00:00:00Z''\<rparr>,
          queue_file = Some q', snapshot_file = Some fallback_snapshot,
          escalation_file = escalation_file w, shell_log = shell_log w @ [''true'']\<rparr>)"
proof -
  let ?w1 = "w\<lparr>snapshot_file := Some fallback_snapshot\<rparr>"
  let ?st1 = "(load_state w)\<lparr>fileview_boost := b',
                completed_tasks := completed_tasks (load_state w) @ [task_id tk]\<rparr>"
  have m: "\<not> is_major (load_queue w ! i)" using t nm by (simp add: is_major_def)
  have c: "command (load_queue w ! i) = Some ''true''" using t cmd by simp
  have sh: "shell quiet_env ''true'' = (0, [])" by (simp add: quiet_env_def plain_shell_def)
  have ab: "add_boosts (fileview_boost (load_state w)) (boost (load_queue w ! i)) dims = Inr b'"
    unfolding fb t b' by (rule add_boosts_Some)
  have tc: "utcnow_iso quiet_env At_completion = ''2026-01-01T00:00:00Z''"
    by (simp add: quiet_env_def fixed_clock_def)
  have x: "execute_task quiet_env (load_queue w) (load_state w) ?w1 =
      Inr (Done, q', ?st1, ?w1\<lparr>shell_log := shell_log ?w1 @ [''true''], queue_file := Some q'\<rparr>)"
    using execute_task_done [OF ft m c _ sh ab, of ?w1] unfolding tc t q' by simp
  have a1: "a = boosted_total ?st1" by (simp add: boosted_total_def a b' boost_get_def)
  have n1: "n = next_no_delta Done d (no_delta_cycles ?st1)" using n by simp
  have "run_cycle quiet_env w =
    Inr (\<lparr>rep_task_result = Done, rep_after = a, rep_delta = d, rep_code = decision Done n\<rparr>,
         (?w1\<lparr>shell_log := shell_log ?w1 @ [''true''], queue_file := Some q'\<rparr>)
           \<lparr>state_file := Some (?st1\<lparr>no_delta_cycles := n, last_total := Some a,
                last_task_result := Some Done,
                last_cycle_at := Some ''2026-01-01T00:00:00Z''\<rparr>)\<rparr>)"
    by (rule run_cycle_quiet [OF s x a1 d n1])
  then show ?thesis by simp
qed

lemma quiet_major_cycle:
  assumes s: "snapshot_file w = None \<or> snapshot_file w = Some fallback_snapshot"
    and ft: "first_todo (load_queue w) = Some i"
    and m: "is_major (load_queue w ! i)"
    and a: "a = boosted_total (load_state w)"
    and d: "d = cycle_delta (before_total (load_state w)) a"
  shows "run_cycle quiet_env w =
    Inr (\<lparr>rep_task_result = Major, rep_after = a, rep_delta = d, rep_code = 10\<rparr>,
         (write_escalation quiet_env (load_queue w ! i)
            (w\<lparr>snapshot_file := Some fallback_snapshot\<rparr>))
           \<lparr>state_file := Some ((load_state w)\<lparr>no_delta_cycles := no_delta_cycles (load_state w),
                last_total := Some a, last_task_result := Some Major,
                last_cycle_at := Some ''2026-01-01T00:00:00Z''\<rparr>)\<rparr>)"
proof -
  have n: "no_delta_cycles (load_state w) = next_no_delta Major d (no_delta_cycles (load_state w))"
    by (simp add: next_no_delta_def)
  have c: "decision Major (no_delta_cycles (load_state w)) = 10" by (simp add: decision_def)
  from run_cycle_quiet [OF s execute_task_major [OF ft m] a d n] show ?thesis
    unfolding c .
qed

lemma zero_boost_eq: "zero_boost = (\<lambda>k. Some 0)"
  by (rule ext) (simp add: zero_boost_def)

lemma load_state_empty: "state_file w = None \<Longrightarrow> load_state w = fresh_state"
  by (simp add: load_state_def fresh_state_def)

lemma stagnant_cycle_1:
  "run_cycle quiet_env stagnant_world_0 =
    Inr (\<lparr>rep_task_result = Done, rep_after = 52, rep_delta = 0, rep_code = 0\<rparr>,
         stagnant_world_1)"
proof -
  have ls: "load_state stagnant_world_0 = fresh_state"
    by (rule load_state_empty) (simp add: stagnant_world_0_def empty_world_def)
  have lq: "load_queue stagnant_world_0 = [plain_task ''t1'', plain_task ''t2'', major_task]"
    by (simp add: load_queue_def stagnant_world_0_def empty_world_def)
  have "run_cycle quiet_env stagnant_world_0 =
    Inr (\<lparr>rep_task_result = Done, rep_after = 52, rep_delta = 0, rep_code = decision Done 1\<rparr>,
         \<lparr>state_file = Some
            \<lparr>fileview_boost = (\<lambda>k. Some 0), last_total = Some 52, no_delta_cycles = 1,
             completed_tasks = completed_tasks (load_state stagnant_world_0) @ [task_id (plain_task ''t1'')],
             last_task_result = Some Done, last_cycle_at = Some ''2026-01-01T00:00:00Z''\<rparr>,
          queue_file = Some [done_task ''t1'', plain_task ''t2'', major_task],
          snapshot_file = Some fallback_snapshot,
          escalation_file = escalation_file stagnant_world_0,
          shell_log = shell_log stagnant_world_0 @ [''true'']\<rparr>)"
  proof (rule quiet_done_cycle [where i = 0 and f = "\<lambda>k. 0"])
    show "snapshot_file stagnant_world_0 = None \<or> snapshot_file stagnant_world_0 = Some fallback_snapshot"
      by (simp add: stagnant_world_0_def empty_world_def)
    show "first_todo (load_queue stagnant_world_0) = Some 0"
      by (simp add: lq plain_task_def is_todo_def)
    show "load_queue stagnant_world_0 ! 0 = plain_task ''t1''" by (simp add: lq)
    show "kind (plain_task ''t1'') = Some ''normal''" by (simp add: plain_task_def)
    show "command (plain_task ''t1'') = Some ''true''" by (simp add: plain_task_def)
    show "fileview_boost (load_state stagnant_world_0) = (\<lambda>k. Some 0)"
      by (simp add: ls fresh_state_def)
    show "(\<lambda>k. Some 0) = (\<lambda>k. Some (0 + boost_get (boost (plain_task ''t1'')) k))"
      by (simp add: plain_task_def boost_get_def no_boost_def)
    show "[done_task ''t1'', plain_task ''t2'', major_task]
        = (load_queue stagnant_world_0)[0 := (plain_task ''t1'')\<lparr>status := Some ''done'',
             completed_at := Some ''2026-01-01T00:00:00Z''\<rparr>]"
      by (simp add: lq done_task_def)
    show "(52::int) = 52 + (0 + boost_get (boost (plain_task ''t1'')) Product)
                  + (0 + boost_get (boost (plain_task ''t1'')) AiFit)
                  + (0 + boost_get (boost (plain_task ''t1'')) Reliability)
                  + (0 + boost_get (boost (plain_task ''t1'')) Ecosystem)
                  + (0 + boost_get (boost (plain_task ''t1'')) Momentum)"
      by (simp add: plain_task_def boost_get_def no_boost_def)
    show "(0::int) = cycle_delta (before_total (load_state stagnant_world_0)) 52"
      by (simp add: ls fresh_state_def before_total_def cycle_delta_def)
    show "(1::int) = next_no_delta Done 0 (no_delta_cycles (load_state stagnant_world_0))"
      by (simp add: ls fresh_state_def next_no_delta_def)
  qed
  from this [unfolded ls] show ?thesis
    by (simp add: stagnant_world_0_def stagnant_world_1_def empty_world_def fresh_state_def
        cycled_world_def cycled_state_def zero_boost_eq decision_def plain_task_def)
qed

lemma load_cycled:
  "load_state (cycled_world st q esc cmds) = st"
  "load_queue (cycled_world st q esc cmds) = q"
  "snapshot_file (cycled_world st q esc cmds) = Some fallback_snapshot"
  "escalation_file (cycled_world st q esc cmds) = esc"
  "shell_log (cycled_world st q esc cmds) = cmds"
  by (simp_all add: load_state_def load_queue_def cycled_world_def)

lemma stagnant_cycle_2:
  "run_cycle quiet_env stagnant_world_1 =
    Inr (\<lparr>rep_task_result = Done, rep_after = 52, rep_delta = 0, rep_code = 11\<rparr>,
         stagnant_world_2)"
proof -
  let ?st = "cycled_state zero_boost 52 1 [''t1''] Done"
  let ?q = "[done_task ''t1'', plain_task ''t2'', major_task]"
  have w: "stagnant_world_1 = cycled_world ?st ?q None [''true'']"
    by (simp add: stagnant_world_1_def)
  have "run_cycle quiet_env (cycled_world ?st ?q None [''true'']) =
    Inr (\<lparr>rep_task_result = Done, rep_after = 52, rep_delta = 0, rep_code = decision Done 2\<rparr>,
         \<lparr>state_file = Some
            \<lparr>fileview_boost = (\<lambda>k. Some 0), last_total = Some 52, no_delta_cycles = 2,
             completed_tasks = completed_tasks (load_state (cycled_world ?st ?q None [''true'']))
                @ [task_id (plain_task ''t2'')],
             last_task_result = Some Done, last_cycle_at = Some ''2026-01-01T00:00:00Z''\<rparr>,
          queue_file = Some [done_task ''t1'', done_task ''t2'', major_task],
          snapshot_file = Some fallback_snapshot,
          escalation_file = escalation_file (cycled_world ?st ?q None [''true'']),
          shell_log = shell_log (cycled_world ?st ?q None [''true'']) @ [''true'']\<rparr>)"
  proof (rule quiet_done_cycle [where i = 1 and f = "\<lambda>k. 0"])
    show "snapshot_file (cycled_world ?st ?q None [''true'']) = None
        \<or> snapshot_file (cycled_world ?st ?q None [''true'']) = Some fallback_snapshot"
      by (simp add: load_cycled)
    show "first_todo (load_queue (cycled_world ?st ?q None [''true''])) = Some 1"
      by (simp add: load_cycled done_task_def plain_task_def is_todo_def)
    show "load_queue (cycled_world ?st ?q None [''true'']) ! 1 = plain_task ''t2''"
      by (simp add: load_cycled)
    show "kind (plain_task ''t2'') = Some ''normal''" by (simp add: plain_task_def)
    show "command (plain_task ''t2'') = Some ''true''" by (simp add: plain_task_def)
    show "fileview_boost (load_state (cycled_world ?st ?q None [''true''])) = (\<lambda>k. Some 0)"
      by (simp add: load_cycled cycled_state_def zero_boost_eq)
    show "(\<lambda>k. Some 0) = (\<lambda>k. Some (0 + boost_get (boost (plain_task ''t2'')) k))"
      by (simp add: plain_task_def boost_get_def no_boost_def)
    show "[done_task ''t1'', done_task ''t2'', major_task]
        = (load_queue (cycled_world ?st ?q None [''true'']))[1 := (plain_task ''t2'')\<lparr>status := Some ''done'',
             completed_at := Some ''2026-01-01T00:00:00Z''\<rparr>]"
      by (simp add: load_cycled done_task_def)
    show "(52::int) = 52 + (0 + boost_get (boost (plain_task ''t2'')) Product)
                  + (0 + boost_get (boost (plain_task ''t2'')) AiFit)
                  + (0 + boost_get (boost (plain_task ''t2'')) Reliability)
                  + (0 + boost_get (boost (plain_task ''t2'')) Ecosystem)
                  + (0 + boost_get (boost (plain_task ''t2'')) Momentum)"
      by (simp add: plain_task_def boost_get_def no_boost_def)
    show "(0::int) = cycle_delta (before_total (load_state (cycled_world ?st ?q None [''true'']))) 52"
      by (simp add: load_cycled cycled_state_def before_total_def cycle_delta_def)
    show "(2::int) = next_no_delta Done 0 (no_delta_cycles (load_state (cycled_world ?st ?q None [''true''])))"
      by (simp add: load_cycled cycled_state_def next_no_delta_def)
  qed
  from this [unfolded load_cycled] show ?thesis unfolding w
    by (simp add: stagnant_world_2_def cycled_world_def cycled_state_def zero_boost_eq
        decision_def plain_task_def)
qed

lemma stagnant_cycle_3:
  "run_cycle quiet_env stagnant_world_2 =
    Inr (\<lparr>rep_task_result = Major, rep_after = 52, rep_delta = 0, rep_code = 10\<rparr>,
         stagnant_world_3)"
proof -
  let ?st = "cycled_state zero_boost 52 2 [''t1'', ''t2''] Done"
  let ?q = "[done_task ''t1'', done_task ''t2'', major_task]"
  let ?w = "cycled_world ?st ?q None [''true'', ''true'']"
  have w: "stagnant_world_2 = ?w" by (simp add: stagnant_world_2_def)
  have "run_cycle quiet_env ?w =
    Inr (\<lparr>rep_task_result = Major, rep_after = 52, rep_delta = 0, rep_code = 10\<rparr>,
         (write_escalation quiet_env (load_queue ?w ! 2)
            (?w\<lparr>snapshot_file := Some fallback_snapshot\<rparr>))
           \<lparr>state_file := Some ((load_state ?w)\<lparr>no_delta_cycles := no_delta_cycles (load_state ?w),
                last_total := Some 52, last_task_result := Some Major,
                last_cycle_at := Some ''2026-01-01T00:00:00Z''\<rparr>)\<rparr>)"
  proof (rule quiet_major_cycle)
    show "snapshot_file ?w = None \<or> snapshot_file ?w = Some fallback_snapshot"
      by (simp add: load_cycled)
    show "first_todo (load_queue ?w) = Some 2"
      by (simp add: load_cycled done_task_def plain_task_def major_task_def is_todo_def)
    show "is_major (load_queue ?w ! 2)"
      by (simp add: load_cycled major_task_def is_major_def)
    show "52 = boosted_total (load_state ?w)"
      by (simp add: load_cycled cycled_state_def boosted_total_def zero_boost_def boost_get_def)
    show "0 = cycle_delta (before_total (load_state ?w)) 52"
      by (simp add: load_cycled cycled_state_def before_total_def cycle_delta_def)
  qed
  from this [unfolded load_cycled] show ?thesis unfolding w
    by (simp add: stagnant_world_3_def cycled_world_def cycled_state_def write_escalation_def
        escalation_line_def quiet_env_def fixed_clock_def major_task_def plain_task_def)
qed

lemma sink_cycle_1:
  "run_cycle quiet_env sink_world_0 =
    Inr (\<lparr>rep_task_result = Done, rep_after = 0, rep_delta = 0, rep_code = 0\<rparr>, sink_world_1)"
proof -
  have ls: "load_state sink_world_0 = fresh_state"
    by (rule load_state_empty) (simp add: sink_world_0_def empty_world_def)
  have lq: "load_queue sink_world_0 = [sink_task, lift_task]"
    by (simp add: load_queue_def sink_world_0_def empty_world_def)
  have "run_cycle quiet_env sink_world_0 =
    Inr (\<lparr>rep_task_result = Done, rep_after = 0, rep_delta = 0, rep_code = decision Done 1\<rparr>,
         \<lparr>state_file = Some
            \<lparr>fileview_boost = sunk_boost, last_total = Some 0, no_delta_cycles = 1,
             completed_tasks = completed_tasks (load_state sink_world_0) @ [task_id sink_task],
             last_task_result = Some Done, last_cycle_at = Some ''2026-01-01T00:00:00Z''\<rparr>,
          queue_file = Some [sink_task\<lparr>status := Some ''done'',
                completed_at := Some ''2026-01-01T00:00:00Z''\<rparr>, lift_task],
          snapshot_file = Some fallback_snapshot,
          escalation_file = escalation_file sink_world_0,
          shell_log = shell_log sink_world_0 @ [''true'']\<rparr>)"
  proof (rule quiet_done_cycle [where i = 0 and f = "\<lambda>k. 0"])
    show "snapshot_file sink_world_0 = None \<or> snapshot_file sink_world_0 = Some fallback_snapshot"
      by (simp add: sink_world_0_def empty_world_def)
    show "first_todo (load_queue sink_world_0) = Some 0"
      by (simp add: lq sink_task_def plain_task_def is_todo_def)
    show "load_queue sink_world_0 ! 0 = sink_task" by (simp add: lq)
    show "kind sink_task = Some ''normal''" by (simp add: sink_task_def plain_task_def)
    show "command sink_task = Some ''true''" by (simp add: sink_task_def plain_task_def)
    show "fileview_boost (load_state sink_world_0) = (\<lambda>k. Some 0)"
      by (simp add: ls fresh_state_def)
    show "sunk_boost = (\<lambda>k. Some (0 + boost_get (boost sink_task) k))"
      by (rule ext) (simp add: sunk_boost_def sink_task_def boost_get_def no_boost_def)
    show "[sink_task\<lparr>status := Some ''done'', completed_at := Some ''2026-01-01T00:00:00Z''\<rparr>,
           lift_task]
        = (load_queue sink_world_0)[0 := sink_task\<lparr>status := Some ''done'',
             completed_at := Some ''2026-01-01T00:00:00Z''\<rparr>]"
      by (simp add: lq)
    show "(0::int) = 52 + (0 + boost_get (boost sink_task) Product)
                  + (0 + boost_get (boost sink_task) AiFit)
                  + (0 + boost_get (boost sink_task) Reliability)
                  + (0 + boost_get (boost sink_task) Ecosystem)
                  + (0 + boost_get (boost sink_task) Momentum)"
      by (simp add: sink_task_def boost_get_def no_boost_def)
    show "(0::int) = cycle_delta (before_total (load_state sink_world_0)) 0"
      by (simp add: ls fresh_state_def before_total_def cycle_delta_def)
    show "(1::int) = next_no_delta Done 0 (no_delta_cycles (load_state sink_world_0))"
      by (simp add: ls fresh_state_def next_no_delta_def)
  qed
  from this [unfolded ls] show ?thesis
    by (simp add: sink_world_0_def sink_world_1_def empty_world_def fresh_state_def
        cycled_world_def cycled_state_def decision_def sink_task_def plain_task_def)
qed

lemma sink_cycle_2:
  "run_cycle quiet_env sink_world_1 =
    Inr (\<lparr>rep_task_result = Done, rep_after = 5, rep_delta = 0, rep_code = 11\<rparr>, sink_world_2)"
proof -
  let ?st = "cycled_state sunk_boost 0 1 [''s1''] Done"
  let ?q = "[sink_task\<lparr>status := Some ''done'', completed_at := Some ''2026-01-01T00:00:00Z''\<rparr>,
             lift_task]"
  let ?w = "cycled_world ?st ?q None [''true'']"
  have w: "sink_world_1 = ?w" by (simp add: sink_world_1_def)
  have "run_cycle quiet_env ?w =
    Inr (\<lparr>rep_task_result = Done, rep_after = 5, rep_delta = 0, rep_code = decision Done 2\<rparr>,
         \<lparr>state_file = Some
            \<lparr>fileview_boost = lifted_boost, last_total = Some 5, no_delta_cycles = 2,
             completed_tasks = completed_tasks (load_state ?w) @ [task_id lift_task],
             last_task_result = Some Done, last_cycle_at = Some ''2026-01-01T00:00:00Z''\<rparr>,
          queue_file = Some [sink_task\<lparr>status := Some ''done'',
                completed_at := Some ''2026-01-01T00:00:00Z''\<rparr>,
              lift_task\<lparr>status := Some ''done'',
                completed_at := Some ''2026-01-01T00:00:00Z''\<rparr>],
          snapshot_file = Some fallback_snapshot,
          escalation_file = escalation_file ?w,
          shell_log = shell_log ?w @ [''true'']\<rparr>)"
  proof (rule quiet_done_cycle [where i = 1 and f = "\<lambda>k. if k = Product then - 52 else 0"])
    show "snapshot_file ?w = None \<or> snapshot_file ?w = Some fallback_snapshot"
      by (simp add: load_cycled)
    show "first_todo (load_queue ?w) = Some 1"
      by (simp add: load_cycled sink_task_def lift_task_def plain_task_def is_todo_def)
    show "load_queue ?w ! 1 = lift_task" by (simp add: load_cycled)
    show "kind lift_task = Some ''normal''" by (simp add: lift_task_def plain_task_def)
    show "command lift_task = Some ''true''" by (simp add: lift_task_def plain_task_def)
    show "fileview_boost (load_state ?w) = (\<lambda>k. Some (if k = Product then - 52 else 0))"
      by (rule ext) (simp add: load_cycled cycled_state_def sunk_boost_def)
    show "lifted_boost = (\<lambda>k. Some ((if k = Product then - 52 else 0) + boost_get (boost lift_task) k))"
      by (rule ext) (simp add: lifted_boost_def lift_task_def boost_get_def no_boost_def)
    show "[sink_task\<lparr>status := Some ''done'', completed_at := Some ''2026-01-01T00:00:00Z''\<rparr>,
           lift_task\<lparr>status := Some ''done'', completed_at := Some ''2026-01-01T00:00:00Z''\<rparr>]
        = (load_queue ?w)[1 := lift_task\<lparr>status := Some ''done'',
             completed_at := Some ''2026-01-01T00:00:00Z''\<rparr>]"
      by (simp add: load_cycled)
    show "(5::int) = 52 + ((if Product = Product then - 52 else 0) + boost_get (boost lift_task) Product)
                  + ((if AiFit = Product then - 52 else 0) + boost_get (boost lift_task) AiFit)
                  + ((if Reliability = Product then - 52 else 0) + boost_get (boost lift_task) Reliability)
                  + ((if Ecosystem = Product then - 52 else 0) + boost_get (boost lift_task) Ecosystem)
                  + ((if Momentum = Product then - 52 else 0) + boost_get (boost lift_task) Momentum)"
      by (simp add: lift_task_def boost_get_def no_boost_def)
    show "(0::int) = cycle_delta (before_total (load_state ?w)) 5"
      by (simp add: load_cycled cycled_state_def before_total_def cycle_delta_def)
    show "(2::int) = next_no_delta Done 0 (no_delta_cycles (load_state ?w))"
      by (simp add: load_cycled cycled_state_def next_no_delta_def)
  qed
  from this [unfolded load_cycled] show ?thesis unfolding w
    by (simp add: sink_world_2_def cycled_world_def cycled_state_def decision_def
        lift_task_def plain_task_def)
qed

lemma gain_cycle:
  "run_cycle quiet_env gain_world_1 =
    Inr (\<lparr>rep_task_result = Done, rep_after = 57, rep_delta = 5, rep_code = 0\<rparr>, gain_world_2)"
proof -
  let ?st = "cycled_state zero_boost 52 1 [''t1''] Done"
  let ?q = "[done_task ''t1'', lift_task]"
  let ?w = "cycled_world ?st ?q None [''true'']"
  have w: "gain_world_1 = ?w" by (simp add: gain_world_1_def)
  have "run_cycle quiet_env ?w =
    Inr (\<lparr>rep_task_result = Done, rep_after = 57, rep_delta = 5, rep_code = decision Done 0\<rparr>,
         \<lparr>state_file = Some
            \<lparr>fileview_boost = gained_boost, last_total = Some 57, no_delta_cycles = 0,
             completed_tasks = completed_tasks (load_state ?w) @ [task_id lift_task],
             last_task_result = Some Done, last_cycle_at = Some ''2026-01-01T00:00:00Z''\<rparr>,
          queue_file = Some [done_task ''t1'',
              lift_task\<lparr>status := Some ''done'',
                completed_at := Some ''2026-01-01T00:00:00Z''\<rparr>],
          snapshot_file = Some fallback_snapshot,
          escalation_file = escalation_file ?w,
          shell_log = shell_log ?w @ [''true'']\<rparr>)"
  proof (rule quiet_done_cycle [where i = 1 and f = "\<lambda>k. 0"])
    show "snapshot_file ?w = None \<or> snapshot_file ?w = Some fallback_snapshot"
      by (simp add: load_cycled)
    show "first_todo (load_queue ?w) = Some 1"
      by (simp add: load_cycled done_task_def lift_task_def plain_task_def is_todo_def)
    show "load_queue ?w ! 1 = lift_task" by (simp add: load_cycled)
    show "kind lift_task = Some ''normal''" by (simp add: lift_task_def plain_task_def)
    show "command lift_task = Some ''true''" by (simp add: lift_task_def plain_task_def)
    show "fileview_boost (load_state ?w) = (\<lambda>k. Some 0)"
      by (simp add: load_cycled cycled_state_def zero_boost_eq)
    show "gained_boost = (\<lambda>k. Some (0 + boost_get (boost lift_task) k))"
      by (rule ext) (simp add: gained_boost_def lift_task_def boost_get_def no_boost_def)
    show "[done_task ''t1'',
           lift_task\<lparr>status := Some ''done'', completed_at := Some ''2026-01-01T00:00:00Z''\<rparr>]
        = (load_queue ?w)[1 := lift_task\<lparr>status := Some ''done'',
             completed_at := Some ''2026-01-01T00:00:00Z''\<rparr>]"
      by (simp add: load_cycled)
    show "(57::int) = 52 + (0 + boost_get (boost lift_task) Product)
                  + (0 + boost_get (boost lift_task) AiFit)
                  + (0 + boost_get (boost lift_task) Reliability)
                  + (0 + boost_get (boost lift_task) Ecosystem)
                  + (0 + boost_get (boost lift_task) Momentum)"
      by (simp add: lift_task_def boost_get_def no_boost_def)
    show "(5::int) = cycle_delta (before_total (load_state ?w)) 57"
      by (simp add: load_cycled cycled_state_def before_total_def cycle_delta_def)
    show "(0::int) = next_no_delta Done 5 (no_delta_cycles (load_state ?w))"
      by (simp add: load_cycled cycled_state_def next_no_delta_def)
  qed
  from this [unfolded load_cycled] show ?thesis unfolding w
    by (simp add: gain_world_2_def cycled_world_def cycled_state_def decision_def
        lift_task_def plain_task_def)
qed

lemma run_cycle_state:
  assumes r: "run_cycle e w = Inr (rep, w')"
  shows "\<exists>st1 st'. state_file w' = Some st' \<and> load_state w' = st'
      \<and> fileview_boost st' = fileview_boost st1
      \<and> no_delta_cycles st' =
          next_no_delta (rep_task_result rep) (rep_delta rep) (no_delta_cycles (load_state w))
      \<and> rep_code rep = decision (rep_task_result rep) (no_delta_cycles st')
      \<and> last_total st' = Some (rep_after rep)
      \<and> rep_delta rep = cycle_delta (before_total (load_state w)) (rep_after rep)
      \<and> (rep_task_result rep \<noteq> Done \<longrightarrow> st1 = load_state w)
      \<and> (rep_task_result rep = Done \<longrightarrow>
           (\<exists>i. first_todo (load_queue w) = Some i
              \<and> (\<forall>k. \<exists>v. fileview_boost (load_state w) k = Some v
                    \<and> fileview_boost st1 k = Some (v + boost_get (boost (load_queue w ! i)) k))))"
proof -
  from run_cycle_elim [OF r] obtain snap w1 out q' st1 w2 rows row where
    big: "branch e = ''develop''
     \<and> fetch_market_snapshot e w = Inr (snap, w1)
     \<and> execute_task e (load_queue w) (load_state w) w1 = Inr (out, q', st1, w2)
     \<and> build_scores (round_ratio e) (fromiso e) (now e) snap st1 = Inr rows
     \<and> map_of rows ''fileview'' = Some row
     \<and> rep = \<lparr>rep_task_result = out, rep_after = total row,
              rep_delta = cycle_delta (before_total (load_state w)) (total row),
              rep_code = decision out
                (next_no_delta out (cycle_delta (before_total (load_state w)) (total row))
                   (no_delta_cycles st1))\<rparr>
     \<and> w' = w2\<lparr>state_file := Some (st1\<lparr>
              no_delta_cycles :=
                next_no_delta out (cycle_delta (before_total (load_state w)) (total row))
                   (no_delta_cycles st1),
              last_total := Some (total row),
              last_task_result := Some out,
              last_cycle_at := Some (utcnow_iso e At_cycle_end)\<rparr>)\<rparr>"
    by (elim exE) (rule that)
  note x = big [THEN conjunct2, THEN conjunct2, THEN conjunct1]
  note rep = big [THEN conjunct2, THEN conjunct2, THEN conjunct2, THEN conjunct2,
    THEN conjunct2, THEN conjunct1]
  note w' = big [THEN conjunct2, THEN conjunct2, THEN conjunct2, THEN conjunct2,
    THEN conjunct2, THEN conjunct2]
  let ?st' = "st1\<lparr>
              no_delta_cycles :=
                next_no_delta out (cycle_delta (before_total (load_state w)) (total row))
                   (no_delta_cycles st1),
              last_total := Some (total row),
              last_task_result := Some out,
              last_cycle_at := Some (utcnow_iso e At_cycle_end)\<rparr>"
  from execute_task_state [OF x] have
    n: "no_delta_cycles st1 = no_delta_cycles (load_state w)"
    and nd: "out \<noteq> Done \<longrightarrow> st1 = load_state w"
    and dn: "out = Done \<longrightarrow>
           (\<exists>i. first_todo (load_queue w) = Some i
              \<and> (\<forall>k. \<exists>v. fileview_boost (load_state w) k = Some v
                    \<and> fileview_boost st1 k = Some (v + boost_get (boost (load_queue w ! i)) k)))"
    by blast+
  have a: "state_file w' = Some ?st'" by (simp add: w')
  have b: "load_state w' = ?st'" by (simp add: w' load_state_def)
  have c: "fileview_boost ?st' = fileview_boost st1" by simp
  have d: "no_delta_cycles ?st' =
          next_no_delta (rep_task_result rep) (rep_delta rep) (no_delta_cycles (load_state w))"
    by (simp add: rep n)
  have e: "rep_code rep = decision (rep_task_result rep) (no_delta_cycles ?st')"
    by (simp add: rep)
  have f: "last_total ?st' = Some (rep_after rep)" by (simp add: rep)
  have g: "rep_delta rep = cycle_delta (before_total (load_state w)) (rep_after rep)"
    by (simp add: rep)
  have o: "rep_task_result rep = out" by (simp add: rep)
  from a b c d e f g nd dn show ?thesis unfolding o by blast
qed

text \<open>
  Claim C3, as amended. \<open>execute_task\<close> adds the declared increments of the task it
  completes with no check of their sign. After a cycle that returns, each boost is the
  boost before plus the increment the completed task declares for that dimension (0 when
  it declares none) when the outcome is done, and the boost before otherwise. So no boost
  decreases in a cycle whose selected task declares no negative increment.
\<close>

theorem boost_accumulates:
  assumes r: "run_cycle e w = Inr (rep, w')"
  shows "\<exists>st'. state_file w' = Some st'
      \<and> (rep_task_result rep \<noteq> Done \<longrightarrow> fileview_boost st' = fileview_boost (load_state w))
      \<and> (rep_task_result rep = Done \<longrightarrow>
           (\<exists>i. first_todo (load_queue w) = Some i
              \<and> (\<forall>k. \<exists>v. fileview_boost (load_state w) k = Some v
                    \<and> fileview_boost st' k = Some (v + boost_get (boost (load_queue w ! i)) k))))
      \<and> ((\<forall>i. first_todo (load_queue w) = Some i
              \<longrightarrow> (\<forall>k. 0 \<le> boost_get (boost (load_queue w ! i)) k))
           \<longrightarrow> (\<forall>k. boost_get (fileview_boost (load_state w)) k
                      \<le> boost_get (fileview_boost st') k))"
proof -
  from run_cycle_state [OF r] obtain st1 st' where
    a: "state_file w' = Some st'" and c: "fileview_boost st' = fileview_boost st1"
    and nd: "rep_task_result rep \<noteq> Done \<longrightarrow> st1 = load_state w"
    and dn: "rep_task_result rep = Done \<longrightarrow>
           (\<exists>i. first_todo (load_queue w) = Some i
              \<and> (\<forall>k. \<exists>v. fileview_boost (load_state w) k = Some v
                    \<and> fileview_boost st1 k = Some (v + boost_get (boost (load_queue w ! i)) k)))"
    by blast
  have p1: "rep_task_result rep \<noteq> Done \<longrightarrow> fileview_boost st' = fileview_boost (load_state w)"
    using nd c by auto
  have p2: "rep_task_result rep = Done \<longrightarrow>
           (\<exists>i. first_todo (load_queue w) = Some i
              \<and> (\<forall>k. \<exists>v. fileview_boost (load_state w) k = Some v
                    \<and> fileview_boost st' k = Some (v + boost_get (boost (load_queue w ! i)) k)))"
    using dn unfolding c .
  have p3: "boost_get (fileview_boost (load_state w)) k \<le> boost_get (fileview_boost st') k"
    if h: "\<forall>i. first_todo (load_queue w) = Some i
              \<longrightarrow> (\<forall>k. 0 \<le> boost_get (boost (load_queue w ! i)) k)" for k
  proof (cases "rep_task_result rep = Done")
    case False
    with p1 show ?thesis by simp
  next
    case True
    with p2 obtain i v where i: "first_todo (load_queue w) = Some i"
      and v: "fileview_boost (load_state w) k = Some v"
      and v': "fileview_boost st' k = Some (v + boost_get (boost (load_queue w ! i)) k)"
      by blast
    from h i have "0 \<le> boost_get (boost (load_queue w ! i)) k" by blast
    with v v' show ?thesis by (simp add: boost_get_def)
  qed
  from a p1 p2 p3 show ?thesis by blast
qed

theorem boost_accumulates_witness:
  "\<exists>st'. state_file sink_world_2 = Some st'
      \<and> fileview_boost (load_state sink_world_1) Product = Some (- 52)
      \<and> fileview_boost st' Product = Some (- 47)
      \<and> boost_get (fileview_boost (load_state sink_world_1)) Product
           \<le> boost_get (fileview_boost st') Product"
proof -
  let ?q = "[sink_task\<lparr>status := Some ''done'', completed_at := Some ''2026-01-01T00:00:00Z''\<rparr>,
             lift_task]"
  have lq: "load_queue sink_world_1 = ?q" by (simp add: sink_world_1_def load_cycled)
  have ft: "first_todo (load_queue sink_world_1) = Some 1"
    by (simp add: lq sink_task_def lift_task_def plain_task_def is_todo_def)
  have nn: "\<forall>i. first_todo (load_queue sink_world_1) = Some i
              \<longrightarrow> (\<forall>k. 0 \<le> boost_get (boost (load_queue sink_world_1 ! i)) k)"
    by (simp add: ft) (simp add: lq lift_task_def boost_get_def no_boost_def)
  from boost_accumulates [OF sink_cycle_2] obtain st' where
    a: "state_file sink_world_2 = Some st'"
    and m: "(\<forall>i. first_todo (load_queue sink_world_1) = Some i
              \<longrightarrow> (\<forall>k. 0 \<le> boost_get (boost (load_queue sink_world_1 ! i)) k))
           \<longrightarrow> (\<forall>k. boost_get (fileview_boost (load_state sink_world_1)) k
                      \<le> boost_get (fileview_boost st') k)"
    by blast
  from m nn have le: "boost_get (fileview_boost (load_state sink_world_1)) Product
           \<le> boost_get (fileview_boost st') Product" by blast
  from a have st': "st' = cycled_state lifted_boost 5 2 [''s1'', ''l1''] Done"
    by (simp add: sink_world_2_def cycled_world_def)
  have b: "fileview_boost (load_state sink_world_1) Product = Some (- 52)"
    by (simp add: sink_world_1_def load_cycled cycled_state_def sunk_boost_def)
  have c: "fileview_boost st' Product = Some (- 47)"
    by (simp add: st' cycled_state_def lifted_boost_def)
  from a b c le show ?thesis by blast
qed

text \<open>
  The claim as stated fails for arbitrary integers: a first cycle that completes a task
  declaring \<^verbatim>\<open>{"product": -52}\<close> takes the product boost from 0 to \<open>- 52\<close>.
\<close>

theorem boost_decreases_counterexample:
  "run_cycle quiet_env sink_world_0 =
     Inr (\<lparr>rep_task_result = Done, rep_after = 0, rep_delta = 0, rep_code = 0\<rparr>, sink_world_1)
   \<and> boost sink_task Product = Some (- 52)
   \<and> fileview_boost (load_state sink_world_0) Product = Some 0
   \<and> fileview_boost (load_state sink_world_1) Product = Some (- 52)"
proof -
  have "fileview_boost (load_state sink_world_0) Product = Some 0"
    by (simp add: sink_world_0_def empty_world_def load_state_def)
  moreover have "fileview_boost (load_state sink_world_1) Product = Some (- 52)"
    by (simp add: sink_world_1_def load_cycled cycled_state_def sunk_boost_def)
  moreover have "boost sink_task Product = Some (- 52)"
    by (simp add: sink_task_def)
  ultimately show ?thesis using sink_cycle_1 by simp
qed

lemma run_cycle_counter:
  assumes r: "run_cycle e w = Inr (rep, w')"
  shows "no_delta_cycles (load_state w') =
          (if rep_task_result rep = Done
           then (if rep_delta rep = 0 then no_delta_cycles (load_state w) + 1 else 0)
           else no_delta_cycles (load_state w))"
    and "rep_code rep =
          (if rep_task_result rep = Major then 10
           else if 2 \<le> no_delta_cycles (load_state w') then 11 else 0)"
proof -
  from run_cycle_state [OF r] obtain st1 st' where
    l: "load_state w' = st'"
    and n: "no_delta_cycles st' =
          next_no_delta (rep_task_result rep) (rep_delta rep) (no_delta_cycles (load_state w))"
    and k: "rep_code rep = decision (rep_task_result rep) (no_delta_cycles st')"
    by blast
  from n show "no_delta_cycles (load_state w') =
          (if rep_task_result rep = Done
           then (if rep_delta rep = 0 then no_delta_cycles (load_state w) + 1 else 0)
           else no_delta_cycles (load_state w))"
    unfolding l by (simp add: next_no_delta_def)
  from k show "rep_code rep =
          (if rep_task_result rep = Major then 10
           else if 2 \<le> no_delta_cycles (load_state w') then 11 else 0)"
    unfolding l by (simp add: decision_def)
qed

text \<open>
  Claim C1, as amended. In every cycle that returns, the counter of no-delta cycles grows
  by one when the cycle is done with delta 0, is reset to 0 when it is done with a delta
  other than 0, and is left as it is when the outcome is not done; and the cycle decides
  escalate (10) when its outcome is major, else pivot (11) when the counter it leaves is
  at least 2, else continue (0). After two consecutive cycles that are done with delta 0,
  starting from a counter that is not negative, the counter has grown by 2 and the second
  of them already decides pivot; the cycle after them decides escalate when its outcome
  is major, continue when it is done with a delta other than 0, and pivot otherwise.
\<close>

theorem no_delta_counter_law:
  assumes c1: "run_cycle e1 w0 = Inr (r1, w1)"
  shows "no_delta_cycles (load_state w1) =
          (if rep_task_result r1 = Done
           then (if rep_delta r1 = 0 then no_delta_cycles (load_state w0) + 1 else 0)
           else no_delta_cycles (load_state w0))
      \<and> rep_code r1 =
          (if rep_task_result r1 = Major then 10
           else if 2 \<le> no_delta_cycles (load_state w1) then 11 else 0)
      \<and> (\<forall>e2 r2 w2 e3 r3 w3.
            run_cycle e2 w1 = Inr (r2, w2) \<and> run_cycle e3 w2 = Inr (r3, w3)
          \<and> rep_task_result r1 = Done \<and> rep_delta r1 = 0
          \<and> rep_task_result r2 = Done \<and> rep_delta r2 = 0
          \<and> 0 \<le> no_delta_cycles (load_state w0)
          \<longrightarrow> no_delta_cycles (load_state w2) = no_delta_cycles (load_state w0) + 2
            \<and> rep_code r2 = 11
            \<and> no_delta_cycles (load_state w3) =
                (if rep_task_result r3 = Done
                 then (if rep_delta r3 = 0 then no_delta_cycles (load_state w2) + 1 else 0)
                 else no_delta_cycles (load_state w2))
            \<and> rep_code r3 =
                (if rep_task_result r3 = Major then 10
                 else if rep_task_result r3 = Done \<and> rep_delta r3 \<noteq> 0 then 0
                 else 11))"
proof (intro conjI allI impI)
  show "no_delta_cycles (load_state w1) =
          (if rep_task_result r1 = Done
           then (if rep_delta r1 = 0 then no_delta_cycles (load_state w0) + 1 else 0)
           else no_delta_cycles (load_state w0))"
    by (rule run_cycle_counter(1) [OF c1])
  show "rep_code r1 =
          (if rep_task_result r1 = Major then 10
           else if 2 \<le> no_delta_cycles (load_state w1) then 11 else 0)"
    by (rule run_cycle_counter(2) [OF c1])
next
  fix e2 r2 w2 e3 r3 w3
  assume h: "run_cycle e2 w1 = Inr (r2, w2) \<and> run_cycle e3 w2 = Inr (r3, w3)
          \<and> rep_task_result r1 = Done \<and> rep_delta r1 = 0
          \<and> rep_task_result r2 = Done \<and> rep_delta r2 = 0
          \<and> 0 \<le> no_delta_cycles (load_state w0)"
  from h have c2: "run_cycle e2 w1 = Inr (r2, w2)" by (rule conjunct1)
  from h have c3: "run_cycle e3 w2 = Inr (r3, w3)" by (rule conjunct2 [THEN conjunct1])
  from h have d1: "rep_task_result r1 = Done" "rep_delta r1 = 0"
    and d2: "rep_task_result r2 = Done" "rep_delta r2 = 0"
    and nn: "0 \<le> no_delta_cycles (load_state w0)"
    by simp_all
  from run_cycle_counter(1) [OF c1] d1
  have m1: "no_delta_cycles (load_state w1) = no_delta_cycles (load_state w0) + 1" by simp
  from run_cycle_counter(1) [OF c2] d2 m1
  have m2: "no_delta_cycles (load_state w2) = no_delta_cycles (load_state w0) + 2" by simp
  from run_cycle_counter(2) [OF c2] d2 m2 nn have p2: "rep_code r2 = 11" by simp
  note p3 = run_cycle_counter(1) [OF c3]
  from run_cycle_counter(2) [OF c3] p3 m2 nn have p4: "rep_code r3 =
          (if rep_task_result r3 = Major then 10
           else if rep_task_result r3 = Done \<and> rep_delta r3 \<noteq> 0 then 0
           else 11)"
    by simp
  show "no_delta_cycles (load_state w2) = no_delta_cycles (load_state w0) + 2" by (rule m2)
  show "rep_code r2 = 11" by (rule p2)
  show "no_delta_cycles (load_state w3) =
                (if rep_task_result r3 = Done
                 then (if rep_delta r3 = 0 then no_delta_cycles (load_state w2) + 1 else 0)
                 else no_delta_cycles (load_state w2))"
    by (rule p3)
  show "rep_code r3 =
                (if rep_task_result r3 = Major then 10
                 else if rep_task_result r3 = Done \<and> rep_delta r3 \<noteq> 0 then 0
                 else 11)"
    by (rule p4)
qed

text \<open>
  The law at work: two cycles that are done with delta 0 take the counter from 0 to 1 and
  to 2, the second deciding pivot; a cycle that meets a major task leaves it at 2 and
  decides escalate; and a cycle that is done with delta 5 resets the counter from 1 to 0
  and decides continue.
\<close>

theorem no_delta_counter_law_witness:
  "no_delta_cycles (load_state stagnant_world_0) = 0
   \<and> no_delta_cycles (load_state stagnant_world_1) = 1
   \<and> no_delta_cycles (load_state stagnant_world_2) = no_delta_cycles (load_state stagnant_world_0) + 2
   \<and> no_delta_cycles (load_state stagnant_world_3) = no_delta_cycles (load_state stagnant_world_2)
   \<and> run_cycle quiet_env gain_world_1 =
       Inr (\<lparr>rep_task_result = Done, rep_after = 57, rep_delta = 5, rep_code = 0\<rparr>, gain_world_2)
   \<and> no_delta_cycles (load_state gain_world_1) = 1
   \<and> no_delta_cycles (load_state gain_world_2) = 0"
proof -
  have z: "no_delta_cycles (load_state stagnant_world_0) = 0"
    by (simp add: stagnant_world_0_def empty_world_def load_state_def)
  have g: "no_delta_cycles (load_state gain_world_1) = 1"
    by (simp add: gain_world_1_def load_cycled cycled_state_def)
  note a = no_delta_counter_law [OF stagnant_cycle_1]
  from a [THEN conjunct1] z have one: "no_delta_cycles (load_state stagnant_world_1) = 1"
    by simp
  from a [THEN conjunct2, THEN conjunct2, rule_format,
      of quiet_env _ stagnant_world_2 quiet_env _ stagnant_world_3]
    stagnant_cycle_2 stagnant_cycle_3 z
  have two: "no_delta_cycles (load_state stagnant_world_2)
      = no_delta_cycles (load_state stagnant_world_0) + 2"
    and three: "no_delta_cycles (load_state stagnant_world_3)
      = no_delta_cycles (load_state stagnant_world_2)"
    by simp_all
  from no_delta_counter_law [OF gain_cycle, THEN conjunct1]
  have reset: "no_delta_cycles (load_state gain_world_2) = 0" by simp
  from z one two three gain_cycle g reset show ?thesis by (intro conjI)
qed

text \<open>
  The claim as stated fails: after two done cycles with delta 0 the third cycle meets a
  major task, decides escalate and not pivot, and, its outcome not being done, leaves the
  counter at 2.
\<close>

theorem stagnation_counterexample:
  "run_cycle quiet_env stagnant_world_0 =
     Inr (\<lparr>rep_task_result = Done, rep_after = 52, rep_delta = 0, rep_code = 0\<rparr>,
          stagnant_world_1)
   \<and> run_cycle quiet_env stagnant_world_1 =
     Inr (\<lparr>rep_task_result = Done, rep_after = 52, rep_delta = 0, rep_code = 11\<rparr>,
          stagnant_world_2)
   \<and> run_cycle quiet_env stagnant_world_2 =
     Inr (\<lparr>rep_task_result = Major, rep_after = 52, rep_delta = 0, rep_code = 10\<rparr>,
          stagnant_world_3)
   \<and> no_delta_cycles (load_state stagnant_world_2) = 2
   \<and> no_delta_cycles (load_state stagnant_world_3) = 2"
proof -
  have "no_delta_cycles (load_state stagnant_world_2) = 2"
    by (simp add: stagnant_world_2_def load_cycled cycled_state_def)
  moreover have "no_delta_cycles (load_state stagnant_world_3) = 2"
    by (simp add: stagnant_world_3_def load_cycled cycled_state_def)
  ultimately show ?thesis using stagnant_cycle_1 stagnant_cycle_2 stagnant_cycle_3 by simp
qed

text \<open>
  Claim C2 at a failing input. The state the first cycle of the queue above leaves has
  the persisted total 0. In the next cycle the total rises to 5, and the reported delta
  is 0 instead of 5: \<^verbatim>\<open>if before\<close> takes the total 0 for an absent one. The cycle is then
  counted as a no-delta cycle and decides pivot.
\<close>

theorem zero_total_delta:
  "last_total (load_state sink_world_1) = Some 0
   \<and> run_cycle quiet_env sink_world_1 =
     Inr (\<lparr>rep_task_result = Done, rep_after = 5, rep_delta = 0, rep_code = 11\<rparr>, sink_world_2)
   \<and> last_total (load_state sink_world_2) = Some 5"
proof -
  have "last_total (load_state sink_world_1) = Some 0"
    by (simp add: sink_world_1_def load_cycled cycled_state_def)
  moreover have "last_total (load_state sink_world_2) = Some 5"
    by (simp add: sink_world_2_def load_cycled cycled_state_def)
  ultimately show ?thesis using sink_cycle_2 by simp
qed

end
